theory Spec2Isabelle
  imports Main "HOL-Library.Char_ord" "HOL-Library.List_Lexorder"
begin

section \<open>SayMyScope: the scope filter of \<^verbatim>\<open>saymyscope.py\<close>\<close>

text \<open>
  The program loads two text files into sets of stripped lines, removes from the first
  every item that an entry of the second (the out-of-scope list) matches, and writes the
  survivors sorted. It has two modes: subdomain mode (\<^verbatim>\<open>filter_subdomains\<close>) and URL
  mode (\<^verbatim>\<open>filter_urls\<close>).

  Conventions of the embedding.
  \<^item> A Python \<^verbatim>\<open>str\<close> is a \<^typ>\<open>string\<close>; a \<^typ>\<open>char\<close> stands for the code point of
    the same number, so the strings covered are those of code points 0 to 255.
  \<^item> A Python set that the code only tests membership in is a HOL set. A set that the
    code iterates over is the list of its elements in iteration order, which Python
    leaves unspecified. For the pattern sets that the code builds, the model takes the
    order of insertion; this order decides only which pattern is reported when several
    match, and no property below depends on it.
  \<^item> The dictionary \<^verbatim>\<open>removed_domain_info\<close> is a map from hostnames to triples.
  \<^item> An exception that escapes a function is the \<open>Inl\<close> branch of its result.
\<close>

subsection \<open>Strings: \<^verbatim>\<open>in\<close>, \<^verbatim>\<open>startswith\<close>, \<^verbatim>\<open>lower\<close>, \<^verbatim>\<open>strip\<close>\<close>

definition has_star :: "string \<Rightarrow> bool" where
  \<comment> \<open>\<^verbatim>\<open>'*' in s\<close>\<close>
  "has_star s = (CHR ''*'' \<in> set s)"

definition startswith :: "string \<Rightarrow> string \<Rightarrow> bool" where
  "startswith s p = (take (length p) s = p)"

definition is_url_pattern :: "string \<Rightarrow> bool" where
  \<comment> \<open>\<^verbatim>\<open>pattern.startswith(('http://', 'https://'))\<close>\<close>
  "is_url_pattern s = (startswith s ''http://'' \<or> startswith s ''https://'')"

definition is_upper :: "char \<Rightarrow> bool" where
  \<comment> \<open>the code points below 256 that \<^verbatim>\<open>str.lower\<close> changes: A-Z, and U+00C0 to U+00DE
      without the multiplication sign U+00D7\<close>
  "is_upper c = ((CHR ''A'' \<le> c \<and> c \<le> CHR ''Z'') \<or>
                 (CHR 0xC0 \<le> c \<and> c \<le> CHR 0xDE \<and> c \<noteq> CHR 0xD7))"

definition lower_char :: "char \<Rightarrow> char" where
  \<comment> \<open>each of these code points has bit 5 clear, and its lower case is 32 above it\<close>
  "lower_char c =
     (if is_upper c
      then (case c of Char b0 b1 b2 b3 b4 b5 b6 b7 \<Rightarrow> Char b0 b1 b2 b3 b4 True b6 b7)
      else c)"

definition lower :: "string \<Rightarrow> string" where
  "lower s = map lower_char s"

definition is_space :: "char \<Rightarrow> bool" where
  \<comment> \<open>\<^verbatim>\<open>str.isspace\<close> on the code points below 256\<close>
  "is_space c = ((CHR 0x09 \<le> c \<and> c \<le> CHR 0x0D) \<or> (CHR 0x1C \<le> c \<and> c \<le> CHR 0x20) \<or>
                 c = CHR 0x85 \<or> c = CHR 0xA0)"

definition strip :: "string \<Rightarrow> string" where
  "strip s = rev (dropWhile is_space (rev (dropWhile is_space s)))"

subsection \<open>The standard library's \<^verbatim>\<open>fnmatch.fnmatch\<close>\<close>

text \<open>
  \<^verbatim>\<open>fnmatch.fnmatch(name, pat)\<close> normalises the case of both arguments with
  \<^verbatim>\<open>os.path.normcase\<close> (the identity on POSIX, which is what is modelled), translates
  the pattern to a regular expression and asks for a match of the whole name. The
  translation is modelled item by item: a star, \<^verbatim>\<open>?\<close>, a bracket expression as the
  class of characters its regular expression denotes, and a literal character.
\<close>

datatype glob_item =
    STAR
  | AnyChar
  | Literal char
  | CharClass bool "(char \<times> char) list"
  | NoMatch

text \<open>
  The end of a bracket expression, relative to the character after \<^verbatim>\<open>[\<close>: an
  optional \<^verbatim>\<open>!\<close>, an optional \<^verbatim>\<open>]\<close>, then everything up to the next \<^verbatim>\<open>]\<close>.
  \<open>None\<close> when there is no closing bracket (\<^verbatim>\<open>j >= n\<close>).
\<close>

definition find_close :: "string \<Rightarrow> nat option" where
  "find_close pat =
     (let j0 = (if pat \<noteq> [] \<and> hd pat = CHR ''!'' then 1 else 0);
          j1 = (if j0 < length pat \<and> pat ! j0 = CHR '']'' then j0 + 1 else j0);
          j = j1 + length (takeWhile (\<lambda>c. c \<noteq> CHR '']'') (drop j1 pat))
      in if j \<ge> length pat then None else Some j)"

text \<open>
  The chunks of a bracket expression that contains a hyphen: the text is cut at each
  hyphen found by \<^verbatim>\<open>pat.find('-', k, j)\<close>, where the search starts \<open>skip\<close>
  characters into the current chunk (1, or 2 after a leading \<^verbatim>\<open>!\<close>, then 2 after
  each cut, which is \<^verbatim>\<open>k = k+3\<close> with \<^verbatim>\<open>i = k+1\<close>).
\<close>

fun split_chunks :: "nat \<Rightarrow> string \<Rightarrow> string \<Rightarrow> string list" where
  "split_chunks skip cur [] = [cur]"
| "split_chunks skip cur (c # cs) =
     (if skip = 0 \<and> c = CHR ''-'' then cur # split_chunks 2 [] cs
      else split_chunks (skip - 1) (cur @ [c]) cs)"

definition close_chunks :: "string list \<Rightarrow> string list" where
  \<comment> \<open>\<^verbatim>\<open>if chunk: chunks.append(chunk) else: chunks[-1] += '-'\<close>\<close>
  "close_chunks cs =
     (if cs \<noteq> [] \<and> last cs = [] \<and> butlast cs \<noteq> []
      then butlast (butlast cs) @ [last (butlast cs) @ ''-'']
      else cs)"

text \<open>
  Removal of empty ranges, from the last chunk down: where the last character of a
  chunk is above the first of the next, the two are joined without those characters.
\<close>

fun drop_empty_ranges :: "string list \<Rightarrow> string list" where
  "drop_empty_ranges [] = []"
| "drop_empty_ranges [c] = [c]"
| "drop_empty_ranges (c # cs) =
     (case drop_empty_ranges cs of
        [] \<Rightarrow> [c]
      | d # ds \<Rightarrow>
          if c \<noteq> [] \<and> d \<noteq> [] \<and> last c > hd d then (butlast c @ tl d) # ds
          else c # d # ds)"

text \<open>
  The characters that the regular expression \<^verbatim>\<open>[stuff]\<close> denotes, as ranges: inside
  a chunk every character stands for itself (backslash, hyphen and the set operators
  are escaped), and the hyphen that joins two chunks makes a range from the last
  character of the one to the first of the next.
\<close>

fun chunk_ranges :: "string list \<Rightarrow> (char \<times> char) list" where
  "chunk_ranges [] = []"
| "chunk_ranges [c] = map (\<lambda>x. (x, x)) c"
| "chunk_ranges (c # d # ds) =
     (if c = [] \<or> d = []
      then map (\<lambda>x. (x, x)) c @ [(CHR ''-'', CHR ''-'')] @ chunk_ranges (d # ds)
      else map (\<lambda>x. (x, x)) (butlast c) @ [(last c, hd d)] @ chunk_ranges (tl d # ds))"

definition bracket_item :: "string \<Rightarrow> glob_item" where
  "bracket_item stuff =
     (let chunks =
            (if CHR ''-'' \<notin> set stuff then [stuff]
             else drop_empty_ranges
                    (close_chunks
                       (split_chunks (if hd stuff = CHR ''!'' then 2 else 1) [] stuff)))
      in if chunks = [[]] then NoMatch
         else if chunks = [''!''] then AnyChar
         else if hd chunks \<noteq> [] \<and> hd (hd chunks) = CHR ''!''
              then CharClass True (chunk_ranges (tl (hd chunks) # tl chunks))
              else CharClass False (chunk_ranges chunks))"

function translate :: "glob_item list \<Rightarrow> string \<Rightarrow> glob_item list" where
  "translate res [] = res"
| "translate res (c # pat) =
     (if c = CHR ''*'' then
        (if res = [] \<or> last res \<noteq> STAR then translate (res @ [STAR]) pat
         else translate res pat)
      else if c = CHR ''?'' then translate (res @ [AnyChar]) pat
      else if c = CHR ''['' then
        (case find_close pat of
           None \<Rightarrow> translate (res @ [Literal CHR ''['']) pat
         | Some j \<Rightarrow> translate (res @ [bracket_item (take j pat)]) (drop (Suc j) pat))
      else translate (res @ [Literal c]) pat)"
  by pat_completeness auto
termination
  by (relation "measure (\<lambda>(res, pat). length pat)") auto

fun item_matches :: "glob_item \<Rightarrow> char \<Rightarrow> bool" where
  "item_matches STAR c = True"
| "item_matches AnyChar c = True"
| "item_matches (Literal l) c = (c = l)"
| "item_matches (CharClass neg rs) c = (neg \<noteq> (\<exists>(lo, hi) \<in> set rs. lo \<le> c \<and> c \<le> hi))"
| "item_matches NoMatch c = False"

text \<open>
  A match of the whole name: the regular expression is anchored at both ends, a star
  stands for any run of characters (the dot matches newlines too) and every other item
  for exactly one character. The library makes each inner star match as little as
  possible and commits to it; as every other item takes exactly one character, that
  finds a match whenever there is one, so the model asks only whether one exists.
\<close>

fun glob_match :: "glob_item list \<Rightarrow> string \<Rightarrow> bool" where
  "glob_match [] s = (s = [])"
| "glob_match (STAR # ps) [] = glob_match ps []"
| "glob_match (STAR # ps) (c # s) = (glob_match ps (c # s) \<or> glob_match (STAR # ps) s)"
| "glob_match (p # ps) [] = False"
| "glob_match (p # ps) (c # s) = (item_matches p c \<and> glob_match ps s)"

definition fnmatch :: "string \<Rightarrow> string \<Rightarrow> bool" where
  "fnmatch name pat = glob_match (translate [] pat) name"

subsection \<open>The standard library's \<^verbatim>\<open>urlparse(url).hostname\<close>\<close>

datatype error = ValueError | SystemExit nat

text \<open>
  \<^verbatim>\<open>filter_urls\<close> asks the standard library for the hostname of each URL. The call
  has three outcomes: it raises \<^verbatim>\<open>ValueError\<close> (the netloc has an unbalanced or an
  invalid bracketed host), it returns \<^verbatim>\<open>None\<close>, or it returns a string. The model of
  \<^verbatim>\<open>filter_urls\<close> takes the call as a parameter of type
  \<^typ>\<open>string \<Rightarrow> error + string option\<close>, so that what is proved of it holds whatever
  the library answers. \<open>urlparse_hostname\<close> below follows the library's
  \<^verbatim>\<open>urlsplit\<close> and \<^verbatim>\<open>hostname\<close> on strings of code points below 256 (where
  \<^verbatim>\<open>_checknetloc\<close> never raises); the validation of a bracketed host
  (\<^verbatim>\<open>_check_bracketed_host\<close>, which parses an IP literal) is its parameter.
\<close>

definition is_scheme_char :: "char \<Rightarrow> bool" where
  "is_scheme_char c =
     ((CHR ''a'' \<le> c \<and> c \<le> CHR ''z'') \<or> (CHR ''A'' \<le> c \<and> c \<le> CHR ''Z'') \<or>
      (CHR ''0'' \<le> c \<and> c \<le> CHR ''9'') \<or> c \<in> {CHR ''+'', CHR ''-'', CHR ''.''})"

definition is_ascii_alpha :: "char \<Rightarrow> bool" where
  "is_ascii_alpha c = ((CHR ''a'' \<le> c \<and> c \<le> CHR ''z'') \<or> (CHR ''A'' \<le> c \<and> c \<le> CHR ''Z''))"

definition strip_scheme :: "string \<Rightarrow> string" where
  \<comment> \<open>the text after \<^verbatim>\<open>scheme:\<close>, when the URL starts with a scheme\<close>
  "strip_scheme url =
     (let i = length (takeWhile (\<lambda>c. c \<noteq> CHR '':'') url)
      in if i < length url \<and> i > 0 \<and> is_ascii_alpha (hd url) \<and>
            list_all is_scheme_char (take i url)
         then drop (i + 1) url else url)"

definition netloc_of :: "string \<Rightarrow> string" where
  \<comment> \<open>\<^verbatim>\<open>_splitnetloc(url, 2)\<close> when the text after the scheme starts with \<^verbatim>\<open>//\<close>,
      the empty string otherwise\<close>
  "netloc_of url =
     (let u0 = dropWhile (\<lambda>c. c \<le> CHR 0x20) url;
          u1 = filter (\<lambda>c. c \<notin> {CHR 0x09, CHR 0x0D, CHR 0x0A}) u0;
          u2 = strip_scheme u1
      in if take 2 u2 = ''//''
         then takeWhile (\<lambda>c. c \<notin> {CHR ''/'', CHR ''?'', CHR ''#''}) (drop 2 u2)
         else [])"

definition hostinfo_name :: "string \<Rightarrow> string" where
  \<comment> \<open>the first component of \<^verbatim>\<open>_hostinfo\<close>\<close>
  "hostinfo_name netloc =
     (let hostinfo = rev (takeWhile (\<lambda>c. c \<noteq> CHR ''@'') (rev netloc))
      in if CHR ''['' \<in> set hostinfo
         then takeWhile (\<lambda>c. c \<noteq> CHR '']'') (drop 1 (dropWhile (\<lambda>c. c \<noteq> CHR ''['') hostinfo))
         else takeWhile (\<lambda>c. c \<noteq> CHR '':'') hostinfo)"

definition urlparse_hostname :: "(string \<Rightarrow> bool) \<Rightarrow> string \<Rightarrow> error + string option" where
  "urlparse_hostname bracketed_host_ok url =
     (let netloc = netloc_of url
      in if (CHR ''['' \<in> set netloc \<and> CHR '']'' \<notin> set netloc) \<or>
            (CHR '']'' \<in> set netloc \<and> CHR ''['' \<notin> set netloc)
         then Inl ValueError
         else if CHR ''['' \<in> set netloc \<and> CHR '']'' \<in> set netloc \<and>
                 \<not> bracketed_host_ok
                     (takeWhile (\<lambda>c. c \<noteq> CHR '']'') (drop 1 (dropWhile (\<lambda>c. c \<noteq> CHR ''['') netloc)))
         then Inl ValueError
         else let hostname = hostinfo_name netloc
              in if hostname = [] then Inr None
                 else Inr (Some (lower (takeWhile (\<lambda>c. c \<noteq> CHR ''%'') hostname) @
                                 dropWhile (\<lambda>c. c \<noteq> CHR ''%'') hostname)))"

text \<open>
  The instance used in the examples below, none of which has a bracketed host: every
  bracketed host passes the validation.
\<close>

definition library_hostname :: "string \<Rightarrow> error + string option" where
  "library_hostname = urlparse_hostname (\<lambda>bracketed_host. True)"

subsection \<open>\<^verbatim>\<open>matches_wildcard\<close>\<close>

fun matches_wildcard :: "string \<Rightarrow> string list \<Rightarrow> string option" where
  "matches_wildcard item [] = None"
| "matches_wildcard item (pattern # wildcard_patterns) =
     (if fnmatch item pattern then Some pattern
      else matches_wildcard item wildcard_patterns)"

definition truthy :: "string option \<Rightarrow> bool" where
  \<comment> \<open>the truth value of an optional string in \<^verbatim>\<open>if x:\<close>: neither \<^verbatim>\<open>None\<close> nor empty\<close>
  "truthy x = (case x of None \<Rightarrow> False | Some s \<Rightarrow> s \<noteq> [])"

subsection \<open>\<^verbatim>\<open>filter_subdomains\<close>\<close>

type_synonym removal_record = "string \<times> string \<times> string"

fun subdomains_loop ::
  "string set \<Rightarrow> string list \<Rightarrow> string set \<times> removal_record list \<Rightarrow> string list
     \<Rightarrow> string set \<times> removal_record list" where
  "subdomains_loop exact_matches wildcard_patterns (in_scope, removed_domains) [] =
     (in_scope, removed_domains)"
| "subdomains_loop exact_matches wildcard_patterns (in_scope, removed_domains) (subdomain # rest) =
     (if subdomain \<in> exact_matches then
        subdomains_loop exact_matches wildcard_patterns
          (in_scope, removed_domains @ [(subdomain, ''exact match'', subdomain)]) rest
      else
        (let matched_pattern = matches_wildcard subdomain wildcard_patterns
         in if truthy matched_pattern then
              subdomains_loop exact_matches wildcard_patterns
                (in_scope, removed_domains @ [(subdomain, ''wildcard match'', the matched_pattern)])
                rest
            else
              subdomains_loop exact_matches wildcard_patterns
                (insert subdomain in_scope, removed_domains) rest))"

definition filter_subdomains ::
  "string list \<Rightarrow> string list \<Rightarrow> string set \<times> removal_record list" where
  "filter_subdomains subdomains out_of_scope =
     (let exact_matches = set (filter (\<lambda>domain. \<not> has_star domain) out_of_scope);
          wildcard_patterns = remdups (filter (\<lambda>domain. has_star domain) out_of_scope)
      in subdomains_loop exact_matches wildcard_patterns ({}, []) subdomains)"

subsection \<open>\<^verbatim>\<open>filter_urls\<close>\<close>

record buckets =
  domain_exact :: "string set"
  domain_wildcards :: "string list"
  url_exact :: "string set"
  url_wildcards :: "string list"

definition set_add :: "string list \<Rightarrow> string \<Rightarrow> string list" where
  \<comment> \<open>\<^verbatim>\<open>s.add(x)\<close> on a set kept in insertion order\<close>
  "set_add s x = (if x \<in> set s then s else s @ [x])"

fun classify :: "buckets \<Rightarrow> string list \<Rightarrow> buckets" where
  "classify b [] = b"
| "classify b (pattern # rest) =
     (if is_url_pattern pattern then
        (if has_star pattern
         then classify (b\<lparr>url_wildcards := set_add (url_wildcards b) pattern\<rparr>) rest
         else classify (b\<lparr>url_exact := insert pattern (url_exact b)\<rparr>) rest)
      else
        (if has_star pattern
         then classify (b\<lparr>domain_wildcards := set_add (domain_wildcards b) pattern\<rparr>) rest
         else classify (b\<lparr>domain_exact := insert pattern (domain_exact b)\<rparr>) rest))"

type_synonym removal_info = "string \<rightharpoonup> nat \<times> string \<times> string"

definition record_removal :: "removal_info \<Rightarrow> string \<Rightarrow> string \<Rightarrow> string \<Rightarrow> removal_info" where
  \<comment> \<open>\<^verbatim>\<open>if domain not in info: info[domain] = [0, reason, pattern]\<close>, then
      \<^verbatim>\<open>info[domain][0] += 1\<close>; the key is present when the counter is read\<close>
  "record_removal info domain reason pattern =
     (let info1 = (if info domain = None then info(domain \<mapsto> (0, reason, pattern)) else info)
      in case info1 domain of
           None \<Rightarrow> info1
         | Some (count, r, p) \<Rightarrow> info1(domain \<mapsto> (count + 1, r, p)))"

fun urls_loop ::
  "(string \<Rightarrow> error + string option) \<Rightarrow> buckets \<Rightarrow> string set \<times> removal_info \<Rightarrow> string list
     \<Rightarrow> error + string set \<times> removal_info" where
  "urls_loop hostname b (in_scope, removed_domain_info) [] = Inr (in_scope, removed_domain_info)"
| "urls_loop hostname b (in_scope, removed_domain_info) (url # rest) =
     (case hostname url of
        Inl e \<Rightarrow> Inl e
      | Inr parsed_hostname \<Rightarrow>
          if \<not> truthy parsed_hostname then
            urls_loop hostname b (in_scope, removed_domain_info) rest
          else
            (let domain = the parsed_hostname;
                 full_url = lower url
             in if full_url \<in> url_exact b then
                  urls_loop hostname b
                    (in_scope, record_removal removed_domain_info domain ''exact URL match'' full_url)
                    rest
                else
                  (let matched_url_pattern = matches_wildcard full_url (url_wildcards b)
                   in if truthy matched_url_pattern then
                        urls_loop hostname b
                          (in_scope,
                           record_removal removed_domain_info domain ''wildcard URL match''
                             (the matched_url_pattern))
                          rest
                      else if domain \<in> domain_exact b then
                        urls_loop hostname b
                          (in_scope,
                           record_removal removed_domain_info domain ''exact domain match'' domain)
                          rest
                      else
                        (let matched_domain_pattern = matches_wildcard domain (domain_wildcards b)
                         in if truthy matched_domain_pattern then
                              urls_loop hostname b
                                (in_scope,
                                 record_removal removed_domain_info domain ''wildcard domain match''
                                   (the matched_domain_pattern))
                                rest
                            else
                              urls_loop hostname b (insert url in_scope, removed_domain_info) rest))))"

definition filter_urls ::
  "(string \<Rightarrow> error + string option) \<Rightarrow> string list \<Rightarrow> string list
     \<Rightarrow> error + string set \<times> removal_info" where
  "filter_urls hostname urls out_of_scope =
     urls_loop hostname
       (classify \<lparr>domain_exact = {}, domain_wildcards = [], url_exact = {}, url_wildcards = []\<rparr>
          out_of_scope)
       ({}, Map.empty) urls"

subsection \<open>\<^verbatim>\<open>load_file\<close> and \<^verbatim>\<open>save_to_file\<close>\<close>

text \<open>
  \<^verbatim>\<open>load_file\<close> reads the file as strict UTF-8 first. That pass has three outcomes:
  the file is missing (\<^verbatim>\<open>FileNotFoundError\<close>, answered by \<^verbatim>\<open>exit(1)\<close>), every
  line is decoded, or \<^verbatim>\<open>UnicodeDecodeError\<close> is raised after the iteration has
  yielded some of the lines. In the last case the items of those lines stay in the set,
  and the file is read again as latin-1 with errors ignored, a decoding that cannot
  fail, into the same set. The model takes the outcome of the first pass and the lines
  of the latin-1 reading; the bytes and their decoding are the file system's side.
  \<^verbatim>\<open>save_to_file\<close> is modelled by the text it writes.
\<close>

datatype utf8_pass =
    FileNotFound
  | Decoded "string list"
  | DecodeFailed "string list"

fun load_lines :: "string set \<Rightarrow> string list \<Rightarrow> string set" where
  "load_lines items [] = items"
| "load_lines items (line # rest) =
     (let stripped = strip line
      in if stripped \<noteq> [] then load_lines (insert stripped items) rest
         else load_lines items rest)"

definition load_file :: "utf8_pass \<Rightarrow> string list \<Rightarrow> error + string set" where
  "load_file utf8 latin1_lines =
     (case utf8 of
        FileNotFound \<Rightarrow> Inl (SystemExit 1)
      | Decoded file_lines \<Rightarrow> Inr (load_lines {} file_lines)
      | DecodeFailed read_lines \<Rightarrow> Inr (load_lines (load_lines {} read_lines) latin1_lines))"

fun write_items :: "string \<Rightarrow> string list \<Rightarrow> string" where
  "write_items f [] = f"
| "write_items f (item # rest) = write_items (f @ item @ [CHR 0x0A]) rest"

definition save_to_file :: "string set \<Rightarrow> string" where
  "save_to_file items = write_items [] (sorted_list_of_set items)"

subsection \<open>Notions used to state and prove the properties\<close>

text \<open>
  \<open>removal_of hostname out_of_scope h url\<close> is the reason and the pattern that
  \<open>filter_urls\<close> records under the hostname \<open>h\<close> when it is given \<open>url\<close> alone,
  and \<open>None\<close> when it records nothing under \<open>h\<close> then. \<open>removed_count\<close> reads the
  counter of a hostname, 0 when the hostname has no record.
\<close>

definition removal_of ::
  "(string \<Rightarrow> error + string option) \<Rightarrow> string list \<Rightarrow> string \<Rightarrow> string
     \<Rightarrow> (string \<times> string) option" where
  "removal_of hostname out_of_scope h url =
     (case filter_urls hostname [url] out_of_scope of
        Inl e \<Rightarrow> None
      | Inr (in_scope, info) \<Rightarrow> map_option snd (info h))"

definition removed_count :: "removal_info \<Rightarrow> string \<Rightarrow> nat" where
  "removed_count info h = (case info h of None \<Rightarrow> 0 | Some (count, r, p) \<Rightarrow> count)"

text \<open>
  The four tests of the loop body of \<open>urls_loop\<close>, in its order, as one function: the
  reason and pattern with which a URL of hostname \<open>domain\<close> is removed, \<open>None\<close> when it
  is kept. \<open>url_removal\<close> restricts it to the URLs whose hostname is \<open>h\<close>, and
  \<open>aggregate\<close> is what a sequence of calls of \<open>record_removal\<close> for one hostname makes
  of that hostname's entry.
\<close>

definition url_rule :: "buckets \<Rightarrow> string \<Rightarrow> string \<Rightarrow> (string \<times> string) option" where
  "url_rule b url domain =
     (if lower url \<in> url_exact b then Some (''exact URL match'', lower url)
      else if truthy (matches_wildcard (lower url) (url_wildcards b))
        then Some (''wildcard URL match'', the (matches_wildcard (lower url) (url_wildcards b)))
      else if domain \<in> domain_exact b then Some (''exact domain match'', domain)
      else if truthy (matches_wildcard domain (domain_wildcards b))
        then Some (''wildcard domain match'', the (matches_wildcard domain (domain_wildcards b)))
      else None)"

definition url_removal ::
  "(string \<Rightarrow> error + string option) \<Rightarrow> buckets \<Rightarrow> string \<Rightarrow> string
     \<Rightarrow> (string \<times> string) option" where
  "url_removal hostname b h url =
     (if hostname url = Inr (Some h) \<and> h \<noteq> [] then url_rule b url h else None)"

fun aggregate ::
  "(nat \<times> string \<times> string) option \<Rightarrow> (string \<times> string) list
     \<Rightarrow> (nat \<times> string \<times> string) option" where
  "aggregate entry [] = entry"
| "aggregate None ((r, p) # rest) = aggregate (Some (1, r, p)) rest"
| "aggregate (Some (count, r0, p0)) ((r, p) # rest) = aggregate (Some (count + 1, r0, p0)) rest"

definition buckets_of :: "string list \<Rightarrow> buckets" where
  "buckets_of out_of_scope =
     classify \<lparr>domain_exact = {}, domain_wildcards = [], url_exact = {}, url_wildcards = []\<rparr>
       out_of_scope"

section \<open>Properties\<close>

subsection \<open>Wildcard matching\<close>

lemma matches_wildcard_None:
  "matches_wildcard x ps = None \<longleftrightarrow> (\<forall>p \<in> set ps. \<not> fnmatch x p)"
  by (induction ps) auto

lemma matches_wildcard_Some:
  "matches_wildcard x ps = Some p \<Longrightarrow> p \<in> set ps \<and> fnmatch x p"
  by (induction ps) (auto split: if_splits)

lemma truthy_matches_wildcard:
  "\<forall>p \<in> set ps. p \<noteq> [] \<Longrightarrow> truthy (matches_wildcard x ps) \<longleftrightarrow> (\<exists>p \<in> set ps. fnmatch x p)"
  using matches_wildcard_None [of x ps] matches_wildcard_Some [of x ps]
  by (cases "matches_wildcard x ps") (auto simp: truthy_def)

lemma has_star_nonempty: "has_star p \<Longrightarrow> p \<noteq> []"
  by (auto simp: has_star_def)

subsection \<open>Subdomain mode\<close>

text \<open>
  The loop decides each subdomain on its own: it is kept when it is not an exact entry
  and no wildcard pattern matches it, and it gets one record otherwise.
\<close>

lemma subdomains_loop_in_scope:
  "fst (subdomains_loop E W (A, R) S) =
     A \<union> {s \<in> set S. s \<notin> E \<and> \<not> truthy (matches_wildcard s W)}"
  by (induction S arbitrary: A R) (auto simp: Let_def)

lemma subdomains_loop_removed:
  "snd (subdomains_loop E W (A, R) S) =
     R @ map (\<lambda>s. if s \<in> E then (s, ''exact match'', s)
                   else (s, ''wildcard match'', the (matches_wildcard s W)))
           (filter (\<lambda>s. s \<in> E \<or> truthy (matches_wildcard s W)) S)"
  by (induction S arbitrary: A R) (auto simp: Let_def)

lemma subdomains_loop_removed_names:
  "map fst (snd (subdomains_loop E W (A, R) S)) =
     map fst R @ filter (\<lambda>s. s \<in> E \<or> truthy (matches_wildcard s W)) S"
  by (simp add: subdomains_loop_removed o_def if_distrib cong: if_cong)

lemma distinct_one_occurrence:
  "distinct xs \<Longrightarrow> x \<in> set xs \<Longrightarrow> length (filter (\<lambda>y. y = x) xs) = 1"
  by (induction xs) (auto simp: filter_empty_conv)

lemma filter_fst_length:
  "length (filter (\<lambda>r. fst r = s) rs) = length (filter (\<lambda>y. y = s) (map fst rs))"
  by (induction rs) auto

text \<open>
  Claim C1. In subdomain mode the in-scope set and the subdomains of the removal
  records partition the input set: their union is the input, they are disjoint, and
  every removed subdomain has exactly one record. The input is a set, so its iteration
  order is a list without repetition.
\<close>

theorem filter_subdomains_partition:
  assumes "distinct subdomains"
    and "filter_subdomains subdomains out_of_scope = (in_scope, removed)"
  shows "in_scope \<union> set (map fst removed) = set subdomains \<and>
         in_scope \<inter> set (map fst removed) = {} \<and>
         distinct (map fst removed) \<and>
         (\<forall>s \<in> set subdomains - in_scope. length (filter (\<lambda>r. fst r = s) removed) = 1)"
proof -
  define E where "E = set (filter (\<lambda>d. \<not> has_star d) out_of_scope)"
  define W where "W = remdups (filter has_star out_of_scope)"
  define out where "out = (\<lambda>s. s \<in> E \<or> truthy (matches_wildcard s W))"
  have run: "subdomains_loop E W ({}, []) subdomains = (in_scope, removed)"
    using assms(2) by (simp add: filter_subdomains_def E_def W_def)
  have K: "in_scope = {s \<in> set subdomains. \<not> out s}"
    using subdomains_loop_in_scope [of E W "{}" "[]" subdomains] run by (auto simp: out_def)
  have N: "map fst removed = filter out subdomains"
    using subdomains_loop_removed_names [of E W "{}" "[]" subdomains] run by (simp add: out_def)
  have d: "distinct (map fst removed)"
    using assms(1) by (simp add: N)
  have one: "length (filter (\<lambda>r. fst r = s) removed) = 1" if "s \<in> set subdomains - in_scope" for s
  proof -
    from that have "s \<in> set (map fst removed)" by (auto simp: N K)
    with d show ?thesis
      by (simp only: filter_fst_length distinct_one_occurrence)
  qed
  show ?thesis
    using d one by (auto simp: N K)
qed

theorem filter_subdomains_partition_witness:
  "distinct [''a.example.com'', ''b.example.com'', ''evil.com''] \<and>
   filter_subdomains [''a.example.com'', ''b.example.com'', ''evil.com''] [''*.example.com''] =
     ({''evil.com''},
      [(''a.example.com'', ''wildcard match'', ''*.example.com''),
       (''b.example.com'', ''wildcard match'', ''*.example.com'')]) \<and>
   {''evil.com''} \<union> {''a.example.com'', ''b.example.com''} =
     set [''a.example.com'', ''b.example.com'', ''evil.com'']"
proof -
  have h1: "distinct [''a.example.com'', ''b.example.com'', ''evil.com'']"
    by simp
  have h2: "filter_subdomains [''a.example.com'', ''b.example.com'', ''evil.com'']
              [''*.example.com''] =
     ({''evil.com''},
      [(''a.example.com'', ''wildcard match'', ''*.example.com''),
       (''b.example.com'', ''wildcard match'', ''*.example.com'')])"
    by (simp add: filter_subdomains_def has_star_def fnmatch_def truthy_def)
  show ?thesis
    using filter_subdomains_partition [OF h1 h2] h1 h2 by simp
qed

text \<open>The same, on \<open>filter_subdomains\<close> itself.\<close>

lemma filter_subdomains_in_scope:
  "fst (filter_subdomains S oos) =
     {s \<in> set S. (s \<notin> set oos \<or> has_star s) \<and>
                  \<not> (\<exists>p \<in> set oos. has_star p \<and> fnmatch s p)}"
proof -
  have "\<forall>p \<in> set (remdups (filter has_star oos)). p \<noteq> []"
    by (auto dest: has_star_nonempty)
  then show ?thesis
    by (auto simp: filter_subdomains_def subdomains_loop_in_scope truthy_matches_wildcard)
qed

lemma filter_subdomains_removed:
  "snd (filter_subdomains S oos) =
     map (\<lambda>s. if s \<in> set oos \<and> \<not> has_star s then (s, ''exact match'', s)
               else (s, ''wildcard match'',
                     the (matches_wildcard s (remdups (filter has_star oos)))))
       (filter (\<lambda>s. s \<notin> fst (filter_subdomains S oos)) S)"
proof -
  have ne: "\<forall>p \<in> set (remdups (filter has_star oos)). p \<noteq> []"
    by (auto dest: has_star_nonempty)
  have "filter (\<lambda>s. s \<notin> fst (filter_subdomains S oos)) S =
        filter (\<lambda>s. s \<in> set (filter (\<lambda>d. \<not> has_star d) oos) \<or>
                     truthy (matches_wildcard s (remdups (filter has_star oos)))) S"
    by (rule filter_cong) (auto simp: filter_subdomains_in_scope truthy_matches_wildcard [OF ne])
  then show ?thesis
    by (simp add: filter_subdomains_def subdomains_loop_removed)
qed

text \<open>
  Claim C2, as stated: an item equal to an out-of-scope entry is removed with reason
  "exact match". It fails for an entry that contains a star: such an entry goes to the
  wildcard bucket, so the equal item is not found among the exact entries and is
  removed, if at all, as a wildcard match.
\<close>

theorem exact_entry_with_star_counterexample:
  "''*.example.com'' \<in> set [''*.example.com''] \<and>
   filter_subdomains [''*.example.com''] [''*.example.com''] =
     ({}, [(''*.example.com'', ''wildcard match'', ''*.example.com'')]) \<and>
   (''*.example.com'', ''exact match'', ''*.example.com'')
     \<notin> set (snd (filter_subdomains [''*.example.com''] [''*.example.com'']))"
  by (simp add: filter_subdomains_def has_star_def fnmatch_def truthy_def)

text \<open>
  Claim C2, amended: an item equal to an out-of-scope entry that contains no star is
  removed with reason "exact match" and itself as the pattern, and has no other record,
  whatever wildcard patterns the out-of-scope set also holds.
\<close>

theorem exact_entry_removed:
  assumes "s \<in> set subdomains"
    and "s \<in> set out_of_scope"
    and "\<not> has_star s"
    and "filter_subdomains subdomains out_of_scope = (in_scope, removed)"
  shows "s \<notin> in_scope \<and> (s, ''exact match'', s) \<in> set removed \<and>
         (\<forall>r p. (s, r, p) \<in> set removed \<longrightarrow> r = ''exact match'' \<and> p = s)"
proof -
  have K: "in_scope = fst (filter_subdomains subdomains out_of_scope)"
    and R: "removed = snd (filter_subdomains subdomains out_of_scope)"
    using assms(4) by simp_all
  have out: "s \<notin> in_scope"
    using assms(2,3) by (simp add: K filter_subdomains_in_scope)
  have "(s, ''exact match'', s) \<in> set removed"
    unfolding R using assms(1,2,3) out
    by (subst filter_subdomains_removed) (force simp: K image_iff)
  moreover have "r = ''exact match'' \<and> p = s" if "(s, r, p) \<in> set removed" for r p
    using that assms(2,3) unfolding R
    by (subst (asm) filter_subdomains_removed) (auto split: if_splits)
  ultimately show ?thesis
    using out by blast
qed

theorem exact_entry_removed_witness:
  "''api.example.com'' \<in> set [''api.example.com'', ''other.org''] \<and>
   ''api.example.com'' \<in> set [''*.example.com'', ''api.example.com''] \<and>
   \<not> has_star ''api.example.com'' \<and>
   fnmatch ''api.example.com'' ''*.example.com'' \<and>
   filter_subdomains [''api.example.com'', ''other.org''] [''*.example.com'', ''api.example.com''] =
     ({''other.org''}, [(''api.example.com'', ''exact match'', ''api.example.com'')]) \<and>
   ''api.example.com'' \<notin> {''other.org''}"
proof -
  have h1: "''api.example.com'' \<in> set [''api.example.com'', ''other.org'']"
    by simp
  have h2: "''api.example.com'' \<in> set [''*.example.com'', ''api.example.com'']"
    by simp
  have h3: "\<not> has_star ''api.example.com''"
    by (simp add: has_star_def)
  have h4: "filter_subdomains [''api.example.com'', ''other.org'']
              [''*.example.com'', ''api.example.com''] =
     ({''other.org''}, [(''api.example.com'', ''exact match'', ''api.example.com'')])"
    by (simp add: filter_subdomains_def has_star_def fnmatch_def truthy_def)
  have h5: "fnmatch ''api.example.com'' ''*.example.com''"
    by (simp add: fnmatch_def)
  show ?thesis
    using exact_entry_removed [OF h1 h2 h3 h4] h1 h2 h3 h4 h5 by simp
qed

text \<open>
  Claim C6. With the out-of-scope set \<^verbatim>\<open>{"*.example.com"}\<close>, subdomain mode removes
  \<^verbatim>\<open>api.example.com\<close> as a wildcard match and keeps \<^verbatim>\<open>example.com\<close> and
  \<^verbatim>\<open>notexample.com\<close>, whatever else the input holds.
\<close>

theorem wildcard_example_com:
  "(''api.example.com'' \<in> set subdomains \<longrightarrow>
      ''api.example.com'' \<notin> fst (filter_subdomains subdomains [''*.example.com'']) \<and>
      (''api.example.com'', ''wildcard match'', ''*.example.com'')
         \<in> set (snd (filter_subdomains subdomains [''*.example.com'']))) \<and>
   (''example.com'' \<in> set subdomains \<longrightarrow>
      ''example.com'' \<in> fst (filter_subdomains subdomains [''*.example.com'']) \<and>
      ''example.com'' \<notin> fst ` set (snd (filter_subdomains subdomains [''*.example.com'']))) \<and>
   (''notexample.com'' \<in> set subdomains \<longrightarrow>
      ''notexample.com'' \<in> fst (filter_subdomains subdomains [''*.example.com'']) \<and>
      ''notexample.com'' \<notin> fst ` set (snd (filter_subdomains subdomains [''*.example.com''])))"
proof -
  have m1: "fnmatch ''api.example.com'' ''*.example.com''"
    by (simp add: fnmatch_def)
  have m2: "\<not> fnmatch ''example.com'' ''*.example.com''"
    by (simp add: fnmatch_def)
  have m3: "\<not> fnmatch ''notexample.com'' ''*.example.com''"
    by (simp add: fnmatch_def)
  have st: "has_star ''*.example.com''"
    by (simp add: has_star_def)
  have K: "fst (filter_subdomains subdomains [''*.example.com'']) =
             {s \<in> set subdomains. \<not> fnmatch s ''*.example.com''}"
    using st by (auto simp: filter_subdomains_in_scope)
  have R: "snd (filter_subdomains subdomains [''*.example.com'']) =
             map (\<lambda>s. (s, ''wildcard match'', ''*.example.com''))
               (filter (\<lambda>s. fnmatch s ''*.example.com'') subdomains)"
    unfolding filter_subdomains_removed K using st
    by (auto intro!: map_cong filter_cong)
  show ?thesis
    unfolding K R using m1 m2 m3 by (auto simp: image_iff)
qed

theorem wildcard_example_com_witness:
  "''api.example.com'' \<in> set [''api.example.com'', ''example.com'', ''notexample.com''] \<and>
   ''example.com'' \<in> set [''api.example.com'', ''example.com'', ''notexample.com''] \<and>
   ''notexample.com'' \<in> set [''api.example.com'', ''example.com'', ''notexample.com''] \<and>
   filter_subdomains [''api.example.com'', ''example.com'', ''notexample.com'']
       [''*.example.com''] =
     ({''example.com'', ''notexample.com''},
      [(''api.example.com'', ''wildcard match'', ''*.example.com'')])"
proof -
  have run: "filter_subdomains [''api.example.com'', ''example.com'', ''notexample.com'']
       [''*.example.com''] =
     ({''example.com'', ''notexample.com''},
      [(''api.example.com'', ''wildcard match'', ''*.example.com'')])"
    by (simp add: filter_subdomains_def has_star_def fnmatch_def truthy_def insert_commute)
  show ?thesis
    using wildcard_example_com [of "[''api.example.com'', ''example.com'', ''notexample.com'']"] run
    by simp
qed

subsection \<open>URL mode\<close>

lemma record_removal_apply:
  "record_removal R h r p h' =
     (if h' = h
      then (case R h of None \<Rightarrow> Some (1, r, p) | Some (c, r0, p0) \<Rightarrow> Some (c + 1, r0, p0))
      else R h')"
  by (auto simp: record_removal_def Let_def split: option.splits)

lemma urls_loop_Inl:
  "hn u = Inl e \<Longrightarrow> urls_loop hn b (K, R) (u # rest) = Inl e"
  by simp

lemma urls_loop_no_host:
  "hn u = Inr ph \<Longrightarrow> \<not> truthy ph \<Longrightarrow>
   urls_loop hn b (K, R) (u # rest) = urls_loop hn b (K, R) rest"
  by simp

lemma urls_loop_removed:
  "hn u = Inr (Some h) \<Longrightarrow> h \<noteq> [] \<Longrightarrow> url_rule b u h = Some (r, p) \<Longrightarrow>
   urls_loop hn b (K, R) (u # rest) = urls_loop hn b (K, record_removal R h r p) rest"
  by (auto simp: url_rule_def truthy_def Let_def split: if_splits)

lemma urls_loop_kept:
  "hn u = Inr (Some h) \<Longrightarrow> h \<noteq> [] \<Longrightarrow> url_rule b u h = None \<Longrightarrow>
   urls_loop hn b (K, R) (u # rest) = urls_loop hn b (insert u K, R) rest"
  by (auto simp: url_rule_def truthy_def Let_def split: if_splits)

lemma truthy_iff: "truthy ph \<longleftrightarrow> (\<exists>h. ph = Some h \<and> h \<noteq> [])"
  by (cases ph) (auto simp: truthy_def)

lemma urls_loop_returns:
  "(\<exists>res. urls_loop hn b st urls = Inr res) \<longleftrightarrow> (\<forall>u \<in> set urls. \<forall>e. hn u \<noteq> Inl e)"
proof (induction urls arbitrary: st)
  case Nil
  then show ?case by (cases st) simp
next
  case (Cons u urls)
  obtain K R where st: "st = (K, R)" by (cases st)
  show ?case
  proof (cases "hn u")
    case (Inl e)
    then show ?thesis by (auto simp: st)
  next
    case (Inr ph)
    show ?thesis
    proof (cases "truthy ph")
      case False
      with Inr Cons.IH [of "(K, R)"] show ?thesis
        by (simp add: st urls_loop_no_host del: urls_loop.simps)
    next
      case True
      then obtain h where h: "ph = Some h" "h \<noteq> []" by (auto simp: truthy_iff)
      show ?thesis
      proof (cases "url_rule b u h")
        case None
        with Inr h Cons.IH [of "(insert u K, R)"] show ?thesis
          by (simp add: st urls_loop_kept del: urls_loop.simps)
      next
        case (Some rp)
        obtain r p where "rp = (r, p)" by (cases rp)
        with Some Inr h Cons.IH [of "(K, record_removal R h r p)"] show ?thesis
          by (simp add: st urls_loop_removed del: urls_loop.simps)
      qed
    qed
  qed
qed

lemma aggregate_record_removal:
  "aggregate (record_removal R h r p h) rps = aggregate (R h) ((r, p) # rps)"
  by (cases "R h") (auto simp: record_removal_apply)

lemma urls_loop_result:
  "urls_loop hn b (K, R) urls = Inr (K', R') \<Longrightarrow>
     K' = K \<union> {u \<in> set urls. \<exists>h. hn u = Inr (Some h) \<and> h \<noteq> [] \<and> url_rule b u h = None} \<and>
     (\<forall>h. R' h = aggregate (R h) (List.map_filter (url_removal hn b h) urls))"
proof (induction urls arbitrary: K R)
  case Nil
  then show ?case by simp
next
  case (Cons u urls)
  show ?case
  proof (cases "hn u")
    case (Inl e)
    with Cons.prems show ?thesis by simp
  next
    case (Inr ph)
    show ?thesis
    proof (cases "truthy ph")
      case False
      with Inr Cons.prems have "urls_loop hn b (K, R) urls = Inr (K', R')"
        by (simp add: urls_loop_no_host del: urls_loop.simps)
      from Cons.IH [OF this] Inr False show ?thesis
        by (auto simp: truthy_iff url_removal_def)
    next
      case True
      then obtain h where h: "ph = Some h" "h \<noteq> []" by (auto simp: truthy_iff)
      show ?thesis
      proof (cases "url_rule b u h")
        case None
        with Inr h Cons.prems have "urls_loop hn b (insert u K, R) urls = Inr (K', R')"
          by (simp add: urls_loop_kept del: urls_loop.simps)
        from Cons.IH [OF this] Inr h None show ?thesis
          by (auto simp: url_removal_def)
      next
        case (Some rp)
        obtain r p where rp: "rp = (r, p)" by (cases rp)
        with Some Inr h Cons.prems
        have "urls_loop hn b (K, record_removal R h r p) urls = Inr (K', R')"
          by (simp add: urls_loop_removed del: urls_loop.simps)
        from Cons.IH [OF this] have
          K': "K' = K \<union> {u \<in> set urls. \<exists>h. hn u = Inr (Some h) \<and> h \<noteq> [] \<and> url_rule b u h = None}"
          and R': "\<And>h'. R' h' = aggregate (record_removal R h r p h')
                     (List.map_filter (url_removal hn b h') urls)"
          by simp_all
        have "R' h' = aggregate (R h') (List.map_filter (url_removal hn b h') (u # urls))" for h'
        proof (cases "h' = h")
          case True
          then show ?thesis
            using Inr h Some rp
            by (simp add: R' aggregate_record_removal url_removal_def)
        next
          case False
          then show ?thesis
            using Inr h by (simp add: R' record_removal_apply url_removal_def)
        qed
        with K' Inr h Some show ?thesis
          by auto
      qed
    qed
  qed
qed

subsection \<open>URL mode: the buckets and the result\<close>

lemma set_set_add: "set (set_add s x) = insert x (set s)"
  by (auto simp: set_add_def)

lemma classify_buckets:
  "url_exact (classify b ps) = url_exact b \<union> {p \<in> set ps. is_url_pattern p \<and> \<not> has_star p} \<and>
   set (url_wildcards (classify b ps)) =
     set (url_wildcards b) \<union> {p \<in> set ps. is_url_pattern p \<and> has_star p} \<and>
   domain_exact (classify b ps) =
     domain_exact b \<union> {p \<in> set ps. \<not> is_url_pattern p \<and> \<not> has_star p} \<and>
   set (domain_wildcards (classify b ps)) =
     set (domain_wildcards b) \<union> {p \<in> set ps. \<not> is_url_pattern p \<and> has_star p}"
  by (induction ps arbitrary: b) (auto simp: set_set_add)

lemma buckets_of_url_exact:
  "url_exact (buckets_of oos) = {p \<in> set oos. is_url_pattern p \<and> \<not> has_star p}"
  using classify_buckets [of _ oos] by (simp add: buckets_of_def)

lemma buckets_of_url_wildcards:
  "set (url_wildcards (buckets_of oos)) = {p \<in> set oos. is_url_pattern p \<and> has_star p}"
  using classify_buckets [of _ oos] by (simp add: buckets_of_def)

lemma buckets_of_domain_exact:
  "domain_exact (buckets_of oos) = {p \<in> set oos. \<not> is_url_pattern p \<and> \<not> has_star p}"
  using classify_buckets [of _ oos] by (simp add: buckets_of_def)

lemma buckets_of_domain_wildcards:
  "set (domain_wildcards (buckets_of oos)) = {p \<in> set oos. \<not> is_url_pattern p \<and> has_star p}"
  using classify_buckets [of _ oos] by (simp add: buckets_of_def)

lemma truthy_url_wildcards:
  "truthy (matches_wildcard x (url_wildcards (buckets_of oos))) \<longleftrightarrow>
     (\<exists>p \<in> set oos. is_url_pattern p \<and> has_star p \<and> fnmatch x p)"
proof -
  have "\<forall>p \<in> set (url_wildcards (buckets_of oos)). p \<noteq> []"
    by (auto simp: buckets_of_url_wildcards dest: has_star_nonempty)
  then show ?thesis
    by (auto simp: truthy_matches_wildcard buckets_of_url_wildcards)
qed

lemma truthy_domain_wildcards:
  "truthy (matches_wildcard x (domain_wildcards (buckets_of oos))) \<longleftrightarrow>
     (\<exists>p \<in> set oos. \<not> is_url_pattern p \<and> has_star p \<and> fnmatch x p)"
proof -
  have "\<forall>p \<in> set (domain_wildcards (buckets_of oos)). p \<noteq> []"
    by (auto simp: buckets_of_domain_wildcards dest: has_star_nonempty)
  then show ?thesis
    by (auto simp: truthy_matches_wildcard buckets_of_domain_wildcards)
qed

lemma filter_urls_buckets: "filter_urls hn urls oos = urls_loop hn (buckets_of oos) ({}, Map.empty) urls"
  by (simp add: filter_urls_def buckets_of_def)

lemma aggregate_Some:
  "aggregate (Some (c, r0, p0)) rest = Some (c + length rest, r0, p0)"
  by (induction rest arbitrary: c) auto

lemma aggregate_None:
  "aggregate None rps = (case rps of [] \<Rightarrow> None | rp # rest \<Rightarrow> Some (length rps, rp))"
  by (cases rps) (auto simp: aggregate_Some)

lemma removal_of_eq: "removal_of hn oos h u = url_removal hn (buckets_of oos) h u"
proof (cases "hn u")
  case (Inl e)
  then show ?thesis
    by (simp add: removal_of_def filter_urls_buckets url_removal_def)
next
  case (Inr ph)
  then have "\<exists>res. urls_loop hn (buckets_of oos) ({}, Map.empty) [u] = Inr res"
    by (subst urls_loop_returns) auto
  then obtain K R where run: "urls_loop hn (buckets_of oos) ({}, Map.empty) [u] = Inr (K, R)"
    by auto
  from urls_loop_result [OF run]
  have "R h = aggregate None (List.map_filter (url_removal hn (buckets_of oos) h) [u])"
    by simp
  then have "map_option snd (R h) = url_removal hn (buckets_of oos) h u"
    by (cases "url_removal hn (buckets_of oos) h u")
       (auto simp: aggregate_None)
  with run show ?thesis
    by (simp add: removal_of_def filter_urls_buckets)
qed

text \<open>
  The result of \<open>filter_urls\<close>, when it returns one: the in-scope set holds the URLs
  with a hostname under which nothing is recorded for them, and the entry of a hostname
  counts the input URLs removed under it and carries the reason and pattern of the
  first of them.
\<close>

lemma filter_urls_in_scope:
  assumes "filter_urls hn urls oos = Inr (K, R)"
  shows "K = {u \<in> set urls. \<exists>h. hn u = Inr (Some h) \<and> h \<noteq> [] \<and> removal_of hn oos h u = None}"
  using urls_loop_result [OF assms [unfolded filter_urls_buckets]]
  by (auto simp: removal_of_eq url_removal_def)

lemma filter_urls_info:
  assumes "filter_urls hn urls oos = Inr (K, R)"
  shows "R h = (case List.map_filter (removal_of hn oos h) urls of
                  [] \<Rightarrow> None
                | rp # rest \<Rightarrow> Some (Suc (length rest), rp))"
proof -
  have "removal_of hn oos h = url_removal hn (buckets_of oos) h"
    by (rule ext) (rule removal_of_eq)
  then show ?thesis
    using urls_loop_result [OF assms [unfolded filter_urls_buckets]]
    by (simp add: aggregate_None split: list.splits)
qed

lemma filter_urls_returns:
  "(\<exists>res. filter_urls hn urls oos = Inr res) \<longleftrightarrow> (\<forall>u \<in> set urls. \<forall>e. hn u \<noteq> Inl e)"
  unfolding filter_urls_buckets by (rule urls_loop_returns)

subsection \<open>URL mode: the claims\<close>

lemmas eval_defs =
  filter_urls_def is_url_pattern_def startswith_def has_star_def truthy_def
  record_removal_def fnmatch_def lower_def lower_char_def is_upper_def
  library_hostname_def urlparse_hostname_def netloc_of_def strip_scheme_def hostinfo_name_def
  is_scheme_char_def is_ascii_alpha_def set_add_def Let_def

lemma map_filter_append: "List.map_filter f (xs @ ys) = List.map_filter f xs @ List.map_filter f ys"
  by (simp add: List.map_filter_def)

lemma map_filter_Cons_split:
  "List.map_filter f xs = y # ys \<Longrightarrow>
   \<exists>pre u post. xs = pre @ u # post \<and> (\<forall>v \<in> set pre. f v = None) \<and> f u = Some y \<and>
                ys = List.map_filter f post"
proof (induction xs)
  case Nil
  then show ?case by simp
next
  case (Cons x xs)
  show ?case
  proof (cases "f x")
    case None
    with Cons.prems have "List.map_filter f xs = y # ys" by simp
    from Cons.IH [OF this] obtain pre u post where
      "xs = pre @ u # post" "\<forall>v \<in> set pre. f v = None" "f u = Some y" "ys = List.map_filter f post"
      by blast
    with None have "x # xs = (x # pre) @ u # post \<and> (\<forall>v \<in> set (x # pre). f v = None) \<and>
                    f u = Some y \<and> ys = List.map_filter f post"
      by simp
    then show ?thesis by blast
  next
    case (Some z)
    with Cons.prems have "x # xs = [] @ x # xs \<and> (\<forall>v \<in> set []. f v = None) \<and> f x = Some y \<and>
                          ys = List.map_filter f xs"
      by simp
    then show ?thesis by blast
  qed
qed

lemma map_filter_all_None: "(\<forall>v \<in> set xs. f v = None) \<Longrightarrow> List.map_filter f xs = []"
  by (induction xs) auto

lemma length_map_filter:
  "length (List.map_filter f xs) = length (filter (\<lambda>v. f v \<noteq> None) xs)"
  by (induction xs) (auto split: option.splits)

lemma removal_of_hostname:
  "removal_of hn oos h u = Some rp \<Longrightarrow> hn u = Inr (Some h) \<and> h \<noteq> []"
  by (auto simp: removal_of_eq url_removal_def split: if_splits)

lemma removal_of_url_level:
  assumes "hn u = Inr (Some h)" "h \<noteq> []"
    and "p \<in> set oos" "is_url_pattern p" "has_star p" "fnmatch (lower u) p"
  shows "\<exists>reason pattern. removal_of hn oos h u = Some (reason, pattern) \<and>
           (reason = ''exact URL match'' \<or> reason = ''wildcard URL match'')"
proof -
  have "truthy (matches_wildcard (lower u) (url_wildcards (buckets_of oos)))"
    using assms(3-6) by (auto simp: truthy_url_wildcards)
  then show ?thesis
    using assms(1,2) by (simp add: removal_of_eq url_removal_def url_rule_def)
qed

lemma removal_of_exact_url:
  "removal_of hn oos h u = Some (''exact URL match'', p) \<Longrightarrow> p = lower u"
  by (auto simp: removal_of_eq url_removal_def url_rule_def split: if_splits)

lemma filter_urls_append_info:
  assumes "filter_urls hn urls oos = Inr (K, R)"
    and "R h = Some (c, r, p)"
    and "filter_urls hn (urls @ later) oos = Inr (K', R')"
  shows "R' h = Some (c + length (filter (\<lambda>v. removal_of hn oos h v \<noteq> None) later), r, p)"
proof -
  from filter_urls_info [OF assms(1), of h] assms(2)
  obtain rest where l: "List.map_filter (removal_of hn oos h) urls = (r, p) # rest"
    and c: "c = Suc (length rest)"
    by (auto split: list.splits)
  have "R' h = Some (Suc (length (rest @ List.map_filter (removal_of hn oos h) later)), r, p)"
    using filter_urls_info [OF assms(3), of h] by (simp add: map_filter_append l)
  then show ?thesis
    by (simp add: c length_map_filter)
qed

text \<open>
  Claim C4. In the mapping that \<open>filter_urls\<close> returns, the reason and pattern stored
  for a hostname are those of the first removed URL under that hostname in iteration
  order, and the counter is the number of removed URLs under it. Every further removal
  under the hostname only raises the counter, whatever rule removed that URL.
\<close>

theorem first_removal_fixes_record:
  assumes "filter_urls hostname urls out_of_scope = Inr (in_scope, info)"
    and "info h = Some (count, reason, pattern)"
  shows "(\<exists>pre u post. urls = pre @ u # post \<and>
            (\<forall>v \<in> set pre. removal_of hostname out_of_scope h v = None) \<and>
            hostname u = Inr (Some h) \<and>
            removal_of hostname out_of_scope h u = Some (reason, pattern) \<and>
            count = Suc (length (filter (\<lambda>v. removal_of hostname out_of_scope h v \<noteq> None) post))) \<and>
         (\<forall>later in_scope' info'.
            filter_urls hostname (urls @ later) out_of_scope = Inr (in_scope', info') \<longrightarrow>
            info' h =
              Some (count + length (filter (\<lambda>v. removal_of hostname out_of_scope h v \<noteq> None) later),
                    reason, pattern))"
proof -
  from filter_urls_info [OF assms(1), of h] assms(2)
  obtain rest where l: "List.map_filter (removal_of hostname out_of_scope h) urls = (reason, pattern) # rest"
    and c: "count = Suc (length rest)"
    by (auto split: list.splits)
  from map_filter_Cons_split [OF l] obtain pre u post where
    s: "urls = pre @ u # post"
    and pre: "\<forall>v \<in> set pre. removal_of hostname out_of_scope h v = None"
    and u: "removal_of hostname out_of_scope h u = Some (reason, pattern)"
    and rest: "rest = List.map_filter (removal_of hostname out_of_scope h) post"
    by blast
  have "count = Suc (length (filter (\<lambda>v. removal_of hostname out_of_scope h v \<noteq> None) post))"
    by (simp add: c rest length_map_filter)
  with s pre u removal_of_hostname [OF u]
  have first: "\<exists>pre u post. urls = pre @ u # post \<and>
            (\<forall>v \<in> set pre. removal_of hostname out_of_scope h v = None) \<and>
            hostname u = Inr (Some h) \<and>
            removal_of hostname out_of_scope h u = Some (reason, pattern) \<and>
            count = Suc (length (filter (\<lambda>v. removal_of hostname out_of_scope h v \<noteq> None) post))"
    by blast
  show ?thesis
    using first filter_urls_append_info [OF assms] by blast
qed

theorem first_removal_fixes_record_witness:
  "filter_urls library_hostname [''http://a.com/y'', ''http://a.com/x1'']
     [''a.com'', ''http://a.com/x*''] =
     Inr ({}, [''a.com'' \<mapsto> (2, ''exact domain match'', ''a.com'')]) \<and>
   removal_of library_hostname [''a.com'', ''http://a.com/x*''] ''a.com''
     ''http://a.com/y'' = Some (''exact domain match'', ''a.com'') \<and>
   removal_of library_hostname [''a.com'', ''http://a.com/x*''] ''a.com''
     ''http://a.com/x1'' = Some (''wildcard URL match'', ''http://a.com/x*'')"
proof -
  have h1: "filter_urls library_hostname [''http://a.com/y'', ''http://a.com/x1'']
     [''a.com'', ''http://a.com/x*''] =
     Inr ({}, [''a.com'' \<mapsto> (2, ''exact domain match'', ''a.com'')])"
    by (simp add: eval_defs numeral_2_eq_2)
  have h2: "[''a.com'' \<mapsto> (2::nat, ''exact domain match'', ''a.com'')] ''a.com'' =
              Some (2, ''exact domain match'', ''a.com'')"
    by simp
  have r1: "removal_of library_hostname [''a.com'', ''http://a.com/x*''] ''a.com''
     ''http://a.com/y'' = Some (''exact domain match'', ''a.com'')"
    by (simp add: removal_of_def eval_defs)
  have r2: "removal_of library_hostname [''a.com'', ''http://a.com/x*''] ''a.com''
     ''http://a.com/x1'' = Some (''wildcard URL match'', ''http://a.com/x*'')"
    by (simp add: removal_of_def eval_defs)
  show ?thesis
    using first_removal_fixes_record [OF h1 h2] h1 r1 r2 by simp
qed

text \<open>
  Claim C3, as stated: a URL that matches a full-URL wildcard pattern and a domain
  pattern is recorded with a URL-level reason, whatever was removed before under its
  hostname. It fails when an earlier URL of the same hostname was removed by a domain
  rule: the entry keeps that URL's reason.
\<close>

theorem url_precedence_counterexample:
  "fnmatch (lower ''http://a.com/x1'') ''http://a.com/x*'' \<and>
   library_hostname ''http://a.com/x1'' = Inr (Some ''a.com'') \<and>
   filter_urls library_hostname [''http://a.com/y'', ''http://a.com/x1'']
     [''a.com'', ''http://a.com/x*''] =
     Inr ({}, map_of [(''a.com'', (2, ''exact domain match'', ''a.com''))])"
  by (simp add: eval_defs numeral_2_eq_2)

text \<open>
  Claim C3, amended: a URL with a hostname whose lower-cased text matches a full-URL
  wildcard pattern is itself always removed by a URL-level rule, whether or not a domain
  pattern matches its hostname too. When no earlier URL of its hostname was removed, the
  entry of the hostname carries the reason and pattern of this URL. When an earlier URL
  of its hostname was removed, the entry carries the reason and pattern of the first
  such URL.
\<close>

theorem url_rule_precedence:
  assumes "filter_urls hostname urls out_of_scope = Inr (in_scope, info)"
    and "urls = pre @ u # post"
    and "hostname u = Inr (Some h)" and "h \<noteq> []"
    and "p \<in> set out_of_scope" and "is_url_pattern p" and "has_star p"
    and "fnmatch (lower u) p"
  shows "\<exists>reason pattern.
           removal_of hostname out_of_scope h u = Some (reason, pattern) \<and>
           (reason = ''exact URL match'' \<or> reason = ''wildcard URL match'') \<and>
           ((\<forall>v \<in> set pre. removal_of hostname out_of_scope h v = None) \<longrightarrow>
              (\<exists>count. info h = Some (count, reason, pattern))) \<and>
           (\<forall>pre1 v pre2 earlier_reason earlier_pattern.
              pre = pre1 @ v # pre2 \<and>
              (\<forall>w \<in> set pre1. removal_of hostname out_of_scope h w = None) \<and>
              removal_of hostname out_of_scope h v = Some (earlier_reason, earlier_pattern) \<longrightarrow>
              (\<exists>count. info h = Some (count, earlier_reason, earlier_pattern)))"
proof -
  from removal_of_url_level [of hostname u h p out_of_scope] assms(3-8) obtain reason pattern where
    u: "removal_of hostname out_of_scope h u = Some (reason, pattern)"
    and lvl: "reason = ''exact URL match'' \<or> reason = ''wildcard URL match''"
    by blast
  have first: "\<exists>count. info h = Some (count, reason, pattern)"
    if pre: "\<forall>v \<in> set pre. removal_of hostname out_of_scope h v = None"
  proof -
    have "List.map_filter (removal_of hostname out_of_scope h) urls =
            (reason, pattern) # List.map_filter (removal_of hostname out_of_scope h) post"
      using pre u by (simp add: assms(2) map_filter_append map_filter_all_None)
    then show ?thesis
      using filter_urls_info [OF assms(1), of h] by simp
  qed
  have later: "\<exists>count. info h = Some (count, r, q)"
    if "pre = pre1 @ v # pre2"
      and "\<forall>w \<in> set pre1. removal_of hostname out_of_scope h w = None"
      and "removal_of hostname out_of_scope h v = Some (r, q)"
    for pre1 v pre2 r q
  proof -
    have "List.map_filter (removal_of hostname out_of_scope h) urls =
            (r, q) # List.map_filter (removal_of hostname out_of_scope h) (pre2 @ u # post)"
      using that by (simp add: assms(2) map_filter_append map_filter_all_None)
    then show ?thesis
      using filter_urls_info [OF assms(1), of h] by simp
  qed
  show ?thesis
    using u lvl first later by blast
qed

theorem url_rule_precedence_witness:
  "filter_urls library_hostname [''http://a.com/x1'', ''http://a.com/y'']
     [''a.com'', ''http://a.com/x*''] =
     Inr ({}, [''a.com'' \<mapsto> (2, ''wildcard URL match'', ''http://a.com/x*'')]) \<and>
   filter_urls library_hostname [''http://a.com/y'', ''http://a.com/x1'']
     [''a.com'', ''http://a.com/x*''] =
     Inr ({}, [''a.com'' \<mapsto> (2, ''exact domain match'', ''a.com'')]) \<and>
   library_hostname ''http://a.com/x1'' = Inr (Some ''a.com'') \<and>
   ''a.com'' \<in> set [''a.com'', ''http://a.com/x*''] \<and>
   ''http://a.com/x*'' \<in> set [''a.com'', ''http://a.com/x*''] \<and>
   is_url_pattern ''http://a.com/x*'' \<and> has_star ''http://a.com/x*'' \<and>
   fnmatch (lower ''http://a.com/x1'') ''http://a.com/x*'' \<and>
   removal_of library_hostname [''a.com'', ''http://a.com/x*''] ''a.com''
     ''http://a.com/x1'' = Some (''wildcard URL match'', ''http://a.com/x*'') \<and>
   removal_of library_hostname [''a.com'', ''http://a.com/x*''] ''a.com''
     ''http://a.com/y'' = Some (''exact domain match'', ''a.com'')"
proof -
  have h1: "filter_urls library_hostname [''http://a.com/x1'', ''http://a.com/y'']
     [''a.com'', ''http://a.com/x*''] =
     Inr ({}, [''a.com'' \<mapsto> (2, ''wildcard URL match'', ''http://a.com/x*'')])"
    by (simp add: eval_defs numeral_2_eq_2)
  have h2: "[''http://a.com/x1'', ''http://a.com/y''] = [] @ ''http://a.com/x1'' # [''http://a.com/y'']"
    by simp
  have g1: "filter_urls library_hostname [''http://a.com/y'', ''http://a.com/x1'']
     [''a.com'', ''http://a.com/x*''] =
     Inr ({}, [''a.com'' \<mapsto> (2, ''exact domain match'', ''a.com'')])"
    by (simp add: eval_defs numeral_2_eq_2)
  have g2: "[''http://a.com/y'', ''http://a.com/x1''] = [''http://a.com/y''] @ ''http://a.com/x1'' # []"
    by simp
  have h3: "library_hostname ''http://a.com/x1'' = Inr (Some ''a.com'')"
    by (simp add: eval_defs)
  have h4: "''a.com'' \<noteq> []"
    by simp
  have h5: "''http://a.com/x*'' \<in> set [''a.com'', ''http://a.com/x*'']"
    by simp
  have h6: "is_url_pattern ''http://a.com/x*''"
    by (simp add: eval_defs)
  have h7: "has_star ''http://a.com/x*''"
    by (simp add: eval_defs)
  have h8: "fnmatch (lower ''http://a.com/x1'') ''http://a.com/x*''"
    by (simp add: eval_defs)
  have r: "removal_of library_hostname [''a.com'', ''http://a.com/x*''] ''a.com''
     ''http://a.com/x1'' = Some (''wildcard URL match'', ''http://a.com/x*'')"
    by (simp add: removal_of_def eval_defs)
  have r': "removal_of library_hostname [''a.com'', ''http://a.com/x*''] ''a.com''
     ''http://a.com/y'' = Some (''exact domain match'', ''a.com'')"
    by (simp add: removal_of_def eval_defs)
  show ?thesis
    using url_rule_precedence [OF h1 h2 h3 h4 h5 h6 h7 h8]
      url_rule_precedence [OF g1 g2 h3 h4 h5 h6 h7 h8] h1 g1 h3 h5 h6 h7 h8 r r'
    by simp
qed

text \<open>
  Claim C5 at its failing input: the out-of-scope entry \<^verbatim>\<open>http://Example.com/A\<close> and
  the URL \<^verbatim>\<open>http://example.com/a\<close> have the same lower-casing, and the URL stays in
  scope with nothing recorded. The entry is stored as written and only the URL is
  lower-cased before the lookup.
\<close>

theorem url_exact_case_failing_input:
  "lower ''http://example.com/a'' = lower ''http://Example.com/A'' \<and>
   is_url_pattern ''http://Example.com/A'' \<and> \<not> has_star ''http://Example.com/A'' \<and>
   filter_urls library_hostname [''http://example.com/a'']
     [''http://Example.com/A''] =
     Inr ({''http://example.com/a''}, map_of [])"
  by (simp add: eval_defs)

text \<open>
  Claim C10, as stated: for every URL removed as an exact URL match the stored pattern
  is that URL lower-cased. It fails for the second of two URLs of one hostname that are
  both exact entries: the entry of the hostname keeps the pattern of the first.
\<close>

theorem exact_url_pattern_counterexample:
  "filter_urls library_hostname [''http://a.com/x'', ''http://a.com/y'']
     [''http://a.com/x'', ''http://a.com/y''] =
     Inr ({}, map_of [(''a.com'', (2, ''exact URL match'', ''http://a.com/x''))]) \<and>
   filter_urls library_hostname [''http://a.com/y'']
     [''http://a.com/x'', ''http://a.com/y''] =
     Inr ({}, map_of [(''a.com'', (1, ''exact URL match'', ''http://a.com/y''))]) \<and>
   lower ''http://a.com/y'' \<noteq> ''http://a.com/x''"
  by (simp add: eval_defs numeral_2_eq_2)

text \<open>
  Claim C10, amended: when the entry of a hostname has the reason "exact URL match", its
  pattern is the first removed URL of that hostname, lower-cased.
\<close>

theorem exact_url_pattern_stored:
  assumes "filter_urls hostname urls out_of_scope = Inr (in_scope, info)"
    and "info h = Some (count, ''exact URL match'', pattern)"
  shows "\<exists>pre u post. urls = pre @ u # post \<and>
           (\<forall>v \<in> set pre. removal_of hostname out_of_scope h v = None) \<and>
           hostname u = Inr (Some h) \<and>
           removal_of hostname out_of_scope h u = Some (''exact URL match'', pattern) \<and>
           pattern = lower u"
proof -
  from filter_urls_info [OF assms(1), of h] assms(2)
  obtain rest where
    l: "List.map_filter (removal_of hostname out_of_scope h) urls = (''exact URL match'', pattern) # rest"
    by (auto split: list.splits)
  from map_filter_Cons_split [OF l] obtain pre u post where
    s: "urls = pre @ u # post"
    and pre: "\<forall>v \<in> set pre. removal_of hostname out_of_scope h v = None"
    and u: "removal_of hostname out_of_scope h u = Some (''exact URL match'', pattern)"
    by blast
  from s pre u removal_of_hostname [OF u] removal_of_exact_url [OF u] show ?thesis
    by blast
qed

theorem exact_url_pattern_stored_witness:
  "filter_urls library_hostname [''http://A.com/X'', ''http://a.com/y'']
     [''http://a.com/x'', ''a.com''] =
     Inr ({}, [''a.com'' \<mapsto> (2, ''exact URL match'', ''http://a.com/x'')]) \<and>
   lower ''http://A.com/X'' = ''http://a.com/x''"
proof -
  have h1: "filter_urls library_hostname [''http://A.com/X'', ''http://a.com/y'']
     [''http://a.com/x'', ''a.com''] =
     Inr ({}, [''a.com'' \<mapsto> (2, ''exact URL match'', ''http://a.com/x'')])"
    by (simp add: eval_defs numeral_2_eq_2)
  have h2: "[''a.com'' \<mapsto> (2::nat, ''exact URL match'', ''http://a.com/x'')] ''a.com'' =
              Some (2, ''exact URL match'', ''http://a.com/x'')"
    by simp
  have l: "lower ''http://A.com/X'' = ''http://a.com/x''"
    by (simp add: eval_defs)
  show ?thesis
    using exact_url_pattern_stored [OF h1 h2] h1 l by simp
qed

subsection \<open>Idempotence and dropped URLs\<close>

text \<open>
  Whether an item is kept depends on the out-of-scope entries as a set only, not on the
  order in which they are met.
\<close>

lemma url_rule_None_iff:
  "url_rule (buckets_of oos) u h = None \<longleftrightarrow>
     \<not> (lower u \<in> set oos \<and> is_url_pattern (lower u) \<and> \<not> has_star (lower u)) \<and>
     \<not> (\<exists>p \<in> set oos. is_url_pattern p \<and> has_star p \<and> fnmatch (lower u) p) \<and>
     \<not> (h \<in> set oos \<and> \<not> is_url_pattern h \<and> \<not> has_star h) \<and>
     \<not> (\<exists>p \<in> set oos. \<not> is_url_pattern p \<and> has_star p \<and> fnmatch h p)"
  unfolding url_rule_def buckets_of_url_exact buckets_of_domain_exact
    truthy_url_wildcards truthy_domain_wildcards
  by auto

lemma removal_of_None_cong:
  "set oos' = set oos \<Longrightarrow>
   removal_of hn oos' h u = None \<longleftrightarrow> removal_of hn oos h u = None"
  by (simp add: removal_of_eq url_removal_def url_rule_None_iff)

lemma subdomains_rerun:
  assumes "filter_subdomains S oos = (K, R)" and "set ks = K" and "set oos' = set oos"
  shows "filter_subdomains ks oos' = (K, [])"
proof -
  have K: "K = fst (filter_subdomains S oos)"
    using assms(1) by simp
  have k: "fst (filter_subdomains ks oos') = K"
    unfolding filter_subdomains_in_scope [of ks] assms(2,3)
    by (auto simp: K filter_subdomains_in_scope)
  have "filter (\<lambda>s. s \<notin> fst (filter_subdomains ks oos')) ks = []"
    by (simp add: k assms(2) filter_empty_conv)
  then have "snd (filter_subdomains ks oos') = []"
    by (subst filter_subdomains_removed) simp
  with k show ?thesis
    by (simp add: prod_eq_iff)
qed

lemma urls_rerun:
  assumes "filter_urls hn urls oos = Inr (K, R)" and "set ks = K" and "set oos' = set oos"
  shows "filter_urls hn ks oos' = Inr (K, Map.empty)"
proof -
  note K = filter_urls_in_scope [OF assms(1)]
  note cong = removal_of_None_cong [OF assms(3)]
  have "\<forall>u \<in> set ks. \<forall>e. hn u \<noteq> Inl e"
    unfolding assms(2) by (subst K) auto
  then obtain K2 R2 where run: "filter_urls hn ks oos' = Inr (K2, R2)"
    using filter_urls_returns [of hn ks oos'] by auto
  have "\<forall>u \<in> K. \<exists>h. hn u = Inr (Some h) \<and> h \<noteq> [] \<and> removal_of hn oos' h u = None"
    unfolding cong by (subst K) auto
  then have "K2 = K"
    using filter_urls_in_scope [OF run] assms(2) by auto
  moreover have "R2 h = None" for h
  proof -
    have "removal_of hn oos' h u = None" if "u \<in> set ks" for u
    proof (cases "removal_of hn oos' h u")
      case None
      then show ?thesis .
    next
      case (Some rp)
      from removal_of_hostname [OF Some] that show ?thesis
        unfolding assms(2) cong by (subst (asm) K) auto
    qed
    then have "List.map_filter (removal_of hn oos' h) ks = []"
      by (simp add: map_filter_all_None)
    then show ?thesis
      using filter_urls_info [OF run, of h] by simp
  qed
  ultimately show ?thesis
    using run by auto
qed

text \<open>
  Claim C7. In both modes, filtering the in-scope output again with the same
  out-of-scope set returns the same set and removes nothing, in whatever order the
  second run iterates over that output and over the out-of-scope set.
\<close>

theorem filter_idempotent:
  "(filter_subdomains subdomains out_of_scope = (kept, removed) \<and> set kept_order = kept \<and>
    set out_of_scope_again = set out_of_scope \<longrightarrow>
      filter_subdomains kept_order out_of_scope_again = (kept, [])) \<and>
   (filter_urls hostname urls url_out_of_scope = Inr (kept_urls, info) \<and>
    set kept_urls_order = kept_urls \<and> set url_out_of_scope_again = set url_out_of_scope \<longrightarrow>
      filter_urls hostname kept_urls_order url_out_of_scope_again = Inr (kept_urls, Map.empty))"
  using subdomains_rerun urls_rerun by blast

theorem filter_idempotent_witness:
  "filter_subdomains [''a.example.com'', ''b.example.com'', ''evil.com''] [''*.example.com''] =
     ({''evil.com''},
      [(''a.example.com'', ''wildcard match'', ''*.example.com''),
       (''b.example.com'', ''wildcard match'', ''*.example.com'')]) \<and>
   set [''evil.com''] = {''evil.com''} \<and>
   filter_subdomains [''evil.com''] [''*.example.com''] = ({''evil.com''}, []) \<and>
   filter_urls library_hostname [''http://a.example.com/x'', ''https://good.com/y'']
     [''http://a.example.com/*''] =
     Inr ({''https://good.com/y''},
          [''a.example.com'' \<mapsto> (1, ''wildcard URL match'', ''http://a.example.com/*'')]) \<and>
   set [''https://good.com/y''] = {''https://good.com/y''} \<and>
   filter_urls library_hostname [''https://good.com/y'']
     [''http://a.example.com/*''] = Inr ({''https://good.com/y''}, Map.empty)"
proof -
  have s1: "filter_subdomains [''a.example.com'', ''b.example.com'', ''evil.com'']
              [''*.example.com''] =
     ({''evil.com''},
      [(''a.example.com'', ''wildcard match'', ''*.example.com''),
       (''b.example.com'', ''wildcard match'', ''*.example.com'')])"
    by (simp add: filter_subdomains_def eval_defs)
  have s2: "set [''evil.com''] = {''evil.com''}"
    by simp
  have u1: "filter_urls library_hostname
              [''http://a.example.com/x'', ''https://good.com/y''] [''http://a.example.com/*''] =
     Inr ({''https://good.com/y''},
          [''a.example.com'' \<mapsto> (1, ''wildcard URL match'', ''http://a.example.com/*'')])"
    by (simp add: eval_defs)
  have u2: "set [''https://good.com/y''] = {''https://good.com/y''}"
    by simp
  have "filter_subdomains [''evil.com''] [''*.example.com''] = ({''evil.com''}, []) \<and>
        filter_urls library_hostname [''https://good.com/y'']
          [''http://a.example.com/*''] = Inr ({''https://good.com/y''}, Map.empty)"
    using filter_idempotent
      [where subdomains = "[''a.example.com'', ''b.example.com'', ''evil.com'']"
         and out_of_scope = "[''*.example.com'']" and kept = "{''evil.com''}"
         and out_of_scope_again = "[''*.example.com'']"
         and kept_order = "[''evil.com'']" and hostname = "library_hostname"
         and urls = "[''http://a.example.com/x'', ''https://good.com/y'']"
         and url_out_of_scope = "[''http://a.example.com/*'']"
         and url_out_of_scope_again = "[''http://a.example.com/*'']"
         and kept_urls = "{''https://good.com/y''}"
         and kept_urls_order = "[''https://good.com/y'']"]
      s1 s2 u1 u2
    by blast
  with s1 s2 u1 u2 show ?thesis
    by blast
qed

subsection \<open>URL mode: URLs without a hostname\<close>

lemma map_filter_removeAll:
  "f u = None \<Longrightarrow> List.map_filter f (removeAll u xs) = List.map_filter f xs"
  by (induction xs) (auto split: option.splits)

lemma map_filter_eq_Nil_iff:
  "List.map_filter f xs = [] \<longleftrightarrow> (\<forall>x \<in> set xs. f x = None)"
  by (induction xs) (auto split: option.splits)

lemma removal_of_iff_not_kept:
  assumes "filter_urls hn urls oos = Inr (K, R)" and "u \<in> set urls" and "h \<noteq> []"
  shows "removal_of hn oos h u \<noteq> None \<longleftrightarrow> hn u = Inr (Some h) \<and> u \<notin> K"
proof
  assume "removal_of hn oos h u \<noteq> None"
  then obtain rp where rp: "removal_of hn oos h u = Some rp" by auto
  from removal_of_hostname [OF rp] rp show "hn u = Inr (Some h) \<and> u \<notin> K"
    by (subst filter_urls_in_scope [OF assms(1)]) auto
next
  assume a: "hn u = Inr (Some h) \<and> u \<notin> K"
  show "removal_of hn oos h u \<noteq> None"
  proof
    assume "removal_of hn oos h u = None"
    with a assms(2,3) have "u \<in> K"
      by (subst filter_urls_in_scope [OF assms(1)]) auto
    with a show False by simp
  qed
qed

lemma filter_urls_drop_unparsed:
  assumes "filter_urls hn urls oos = Inr (K, R)"
    and "hn u = Inr None \<or> hn u = Inr (Some [])"
  shows "u \<notin> K \<and> filter_urls hn (removeAll u urls) oos = Inr (K, R)"
proof -
  have notK: "u \<notin> K"
    using assms(2) by (subst filter_urls_in_scope [OF assms(1)]) auto
  have none: "removal_of hn oos h u = None" for h
    using assms(2) removal_of_hostname [of hn oos h u]
    by (cases "removal_of hn oos h u") auto
  have "\<forall>v \<in> set (removeAll u urls). \<forall>e. hn v \<noteq> Inl e"
    using filter_urls_returns [of hn urls oos] assms(1) by auto
  then obtain K2 R2 where run: "filter_urls hn (removeAll u urls) oos = Inr (K2, R2)"
    using filter_urls_returns [of hn "removeAll u urls" oos] by auto
  have notP: "\<not> (\<exists>h. hn u = Inr (Some h) \<and> h \<noteq> [] \<and> removal_of hn oos h u = None)"
    using assms(2) by auto
  have k2: "K2 = {v \<in> set (removeAll u urls).
                  \<exists>h. hn v = Inr (Some h) \<and> h \<noteq> [] \<and> removal_of hn oos h v = None}"
    by (rule filter_urls_in_scope [OF run])
  have k: "K = {v \<in> set urls.
                \<exists>h. hn v = Inr (Some h) \<and> h \<noteq> [] \<and> removal_of hn oos h v = None}"
    by (rule filter_urls_in_scope [OF assms(1)])
  have "K2 = K"
    unfolding k2 k using notP by auto
  moreover have "R2 h = R h" for h
    using filter_urls_info [OF run, of h] filter_urls_info [OF assms(1), of h]
    by (simp add: map_filter_removeAll none)
  then have "R2 = R" by (rule ext)
  ultimately show ?thesis
    using notK run by simp
qed

text \<open>
  In a result of \<open>filter_urls\<close>, a URL for which the hostname is \<^verbatim>\<open>None\<close> or empty
  is not in the in-scope set and contributes nothing: the result is the one obtained
  without that URL. The in-scope set holds only URLs with a hostname, the mapping has an
  entry exactly for the hostnames of the URLs that are not in scope, and the counter of
  a hostname is the number of input URLs of that hostname that are not in scope.
\<close>

lemma hostless_urls_dropped:
  assumes "filter_urls hostname urls out_of_scope = Inr (in_scope, info)"
  shows "(\<forall>u \<in> set urls. hostname u = Inr None \<or> hostname u = Inr (Some []) \<longrightarrow>
            u \<notin> in_scope \<and>
            filter_urls hostname (removeAll u urls) out_of_scope = Inr (in_scope, info)) \<and>
         in_scope \<subseteq> {u \<in> set urls. \<exists>h. hostname u = Inr (Some h) \<and> h \<noteq> []} \<and>
         dom info = {h. h \<noteq> [] \<and> (\<exists>u \<in> set urls. hostname u = Inr (Some h) \<and> u \<notin> in_scope)} \<and>
         (\<forall>h. h \<noteq> [] \<longrightarrow>
            removed_count info h =
              length (filter (\<lambda>u. hostname u = Inr (Some h) \<and> u \<notin> in_scope) urls))"
proof -
  have a: "\<forall>u \<in> set urls. hostname u = Inr None \<or> hostname u = Inr (Some []) \<longrightarrow>
            u \<notin> in_scope \<and>
            filter_urls hostname (removeAll u urls) out_of_scope = Inr (in_scope, info)"
    using filter_urls_drop_unparsed [OF assms] by blast
  have b: "in_scope \<subseteq> {u \<in> set urls. \<exists>h. hostname u = Inr (Some h) \<and> h \<noteq> []}"
    by (subst filter_urls_in_scope [OF assms]) auto
  have len: "length (List.map_filter (removal_of hostname out_of_scope h) urls) =
               length (filter (\<lambda>u. hostname u = Inr (Some h) \<and> u \<notin> in_scope) urls)"
    if "h \<noteq> []" for h
  proof -
    have "filter (\<lambda>u. removal_of hostname out_of_scope h u \<noteq> None) urls =
          filter (\<lambda>u. hostname u = Inr (Some h) \<and> u \<notin> in_scope) urls"
      by (rule filter_cong [OF refl]) (rule removal_of_iff_not_kept [OF assms _ that])
    then show ?thesis
      by (simp only: length_map_filter)
  qed
  have cnt: "removed_count info h =
               length (filter (\<lambda>u. hostname u = Inr (Some h) \<and> u \<notin> in_scope) urls)"
    if "h \<noteq> []" for h
  proof -
    have "removed_count info h = length (List.map_filter (removal_of hostname out_of_scope h) urls)"
      unfolding removed_count_def filter_urls_info [OF assms, of h]
      by (cases "List.map_filter (removal_of hostname out_of_scope h) urls") auto
    then show ?thesis
      by (simp only: len [OF that])
  qed
  have d: "dom info = {h. h \<noteq> [] \<and> (\<exists>u \<in> set urls. hostname u = Inr (Some h) \<and> u \<notin> in_scope)}"
  proof (rule set_eqI)
    fix h
    have "h \<in> dom info \<longleftrightarrow> List.map_filter (removal_of hostname out_of_scope h) urls \<noteq> []"
      using filter_urls_info [OF assms, of h] by (auto split: list.splits)
    also have "\<dots> \<longleftrightarrow> (\<exists>u \<in> set urls. removal_of hostname out_of_scope h u \<noteq> None)"
      by (auto simp: map_filter_eq_Nil_iff)
    also have "\<dots> \<longleftrightarrow> h \<noteq> [] \<and> (\<exists>u \<in> set urls. hostname u = Inr (Some h) \<and> u \<notin> in_scope)"
    proof (cases "h = []")
      case True
      then show ?thesis
        using removal_of_hostname [of hostname out_of_scope h] by auto
    next
      case False
      then show ?thesis
        using removal_of_iff_not_kept [OF assms _ False] by auto
    qed
    finally show "h \<in> dom info \<longleftrightarrow>
        h \<in> {h. h \<noteq> [] \<and> (\<exists>u \<in> set urls. hostname u = Inr (Some h) \<and> u \<notin> in_scope)}"
      by simp
  qed
  show ?thesis
    using a b d cnt by blast
qed

lemma hostless_urls_dropped_example:
  "library_hostname ''not a url'' = Inr None \<and>
   filter_urls library_hostname
     [''not a url'', ''http://a.example.com/x'', ''https://good.com/y'']
     [''http://a.example.com/*''] =
     Inr ({''https://good.com/y''},
          [''a.example.com'' \<mapsto> (1, ''wildcard URL match'', ''http://a.example.com/*'')]) \<and>
   filter_urls library_hostname
     (removeAll ''not a url'' [''not a url'', ''http://a.example.com/x'', ''https://good.com/y''])
     [''http://a.example.com/*''] =
     Inr ({''https://good.com/y''},
          [''a.example.com'' \<mapsto> (1, ''wildcard URL match'', ''http://a.example.com/*'')])"
proof -
  have h1: "filter_urls library_hostname
     [''not a url'', ''http://a.example.com/x'', ''https://good.com/y'']
     [''http://a.example.com/*''] =
     Inr ({''https://good.com/y''},
          [''a.example.com'' \<mapsto> (1, ''wildcard URL match'', ''http://a.example.com/*'')])"
    by (simp add: eval_defs)
  have h2: "library_hostname ''not a url'' = Inr None"
    by (simp add: eval_defs)
  have h3: "''not a url'' \<in> set [''not a url'', ''http://a.example.com/x'', ''https://good.com/y'']"
    by simp
  show ?thesis
    using hostless_urls_dropped [OF h1] h1 h2 h3 by blast
qed

text \<open>
  When the library raises for one URL, the exception leaves \<open>filter_urls\<close> and there
  is no result.
\<close>

lemma urlparse_raise_aborts:
  "hn u = Inl e \<Longrightarrow> u \<in> set urls \<Longrightarrow> \<exists>e'. filter_urls hn urls oos = Inl e'"
  using filter_urls_returns [of hn urls oos]
  by (cases "filter_urls hn urls oos") auto

text \<open>
  Claim C8 at its failing input: no hostname can be extracted from \<^verbatim>\<open>http://[::1\<close>,
  whose netloc has an opening bracket and no closing one, because the library raises
  \<^verbatim>\<open>ValueError\<close> for it, whatever the validation of bracketed hosts. The loop has no
  handler around the call, so the URL is not skipped: in either iteration order
  \<open>filter_urls\<close> returns neither an in-scope set nor a mapping, and
  \<^verbatim>\<open>https://good.com/y\<close>, which has a hostname and is in scope when filtered without
  the malformed URL, appears in neither.
\<close>

theorem unparseable_url_raises:
  "urlparse_hostname bracketed_host_ok ''http://[::1'' = Inl ValueError \<and>
   urlparse_hostname bracketed_host_ok ''https://good.com/y'' = Inr (Some ''good.com'') \<and>
   filter_urls (urlparse_hostname bracketed_host_ok) [''https://good.com/y'', ''http://[::1''] [] =
     Inl ValueError \<and>
   filter_urls (urlparse_hostname bracketed_host_ok) [''http://[::1'', ''https://good.com/y''] [] =
     Inl ValueError \<and>
   filter_urls (urlparse_hostname bracketed_host_ok) [''https://good.com/y''] [] =
     Inr ({''https://good.com/y''}, map_of [])"
  by (simp add: eval_defs)

subsection \<open>Loading and saving\<close>

lemma load_lines_eq:
  "load_lines items ls = items \<union> {s. s \<noteq> [] \<and> s \<in> strip ` set ls}"
  by (induction ls arbitrary: items) (auto simp: Let_def)

lemma load_file_Decoded:
  "load_file (Decoded ls) fallback = Inr {s. s \<noteq> [] \<and> s \<in> strip ` set ls}"
  by (simp add: load_file_def load_lines_eq)

lemma load_file_DecodeFailed:
  "load_file (DecodeFailed ls) fallback =
     Inr ({s. s \<noteq> [] \<and> s \<in> strip ` set ls} \<union> {s. s \<noteq> [] \<and> s \<in> strip ` set fallback})"
  by (simp add: load_file_def load_lines_eq)

lemma load_file_finite: "load_file utf8 fallback = Inr loaded \<Longrightarrow> finite loaded"
  by (cases utf8) (auto simp: load_file_def load_lines_eq)

lemma write_items_eq:
  "write_items f ls = f @ concat (map (\<lambda>item. item @ [CHR 0x0A]) ls)"
  by (induction ls arbitrary: f) auto

lemma save_to_file_eq:
  assumes "finite items"
  shows "\<exists>out. save_to_file items = concat (map (\<lambda>item. item @ [CHR 0x0A]) out) \<and>
               sorted out \<and> distinct out \<and> set out = items"
proof -
  have "save_to_file items =
          concat (map (\<lambda>item. item @ [CHR 0x0A]) (sorted_list_of_set items)) \<and>
        sorted (sorted_list_of_set items) \<and> distinct (sorted_list_of_set items) \<and>
        set (sorted_list_of_set items) = items"
    using assms by (simp add: save_to_file_def write_items_eq)
  then show ?thesis by blast
qed

lemma filter_subdomains_finite: "finite (fst (filter_subdomains S oos))"
  by (simp add: filter_subdomains_in_scope)

lemma filter_subdomains_subset: "fst (filter_subdomains S oos) \<subseteq> set S"
  by (auto simp: filter_subdomains_in_scope)

lemma filter_urls_finite: "filter_urls hn urls oos = Inr (K, R) \<Longrightarrow> finite K"
  by (subst filter_urls_in_scope, assumption) simp

lemma filter_urls_subset: "filter_urls hn urls oos = Inr (K, R) \<Longrightarrow> K \<subseteq> set urls"
  by (subst filter_urls_in_scope, assumption) auto

text \<open>
  Claim C9. The text that \<open>save_to_file\<close> writes for a set of items is the items of a
  strictly ascending list, each followed by a newline, and the list holds exactly the
  items of the set. \<open>load_file\<close> exits with status 1 when the file is missing and
  otherwise loads exactly the stripped non-empty lines, as a set, so that a line met
  twice is one item: the lines of the UTF-8 reading when it succeeds, and the lines it
  had yielded together with those of the latin-1 reading when it fails; the order and
  the repetitions of the lines of a reading do not show in the loaded set. Whatever was
  loaded, the text saved for the in-scope set of either mode lists each surviving item
  once, in ascending order, every saved item was loaded, and the text is the same for
  every order in which the filter goes through the loaded items.
\<close>

theorem saved_output_sorted_dedup:
  "(finite items \<longrightarrow>
      (\<exists>out. save_to_file items = concat (map (\<lambda>item. item @ [CHR 0x0A]) out) \<and>
             sorted out \<and> distinct out \<and> set out = items)) \<and>
   load_file FileNotFound latin1_lines = Inl (SystemExit 1) \<and>
   load_file (Decoded file_lines) latin1_lines =
     Inr {s. s \<noteq> [] \<and> s \<in> strip ` set file_lines} \<and>
   load_file (DecodeFailed read_lines) latin1_lines =
     Inr ({s. s \<noteq> [] \<and> s \<in> strip ` set read_lines} \<union>
          {s. s \<noteq> [] \<and> s \<in> strip ` set latin1_lines}) \<and>
   (set file_lines = set file_lines_again \<longrightarrow>
      load_file (Decoded file_lines) latin1_lines =
      load_file (Decoded file_lines_again) latin1_lines_again) \<and>
   (set read_lines = set read_lines_again \<and> set latin1_lines = set latin1_lines_again \<longrightarrow>
      load_file (DecodeFailed read_lines) latin1_lines =
      load_file (DecodeFailed read_lines_again) latin1_lines_again) \<and>
   (load_file first_pass fallback_lines = Inr loaded \<and> set subdomains = loaded \<longrightarrow>
      (\<exists>out. save_to_file (fst (filter_subdomains subdomains out_of_scope)) =
               concat (map (\<lambda>item. item @ [CHR 0x0A]) out) \<and>
             sorted out \<and> distinct out \<and>
             set out = fst (filter_subdomains subdomains out_of_scope) \<and> set out \<subseteq> loaded)) \<and>
   (set subdomains = set subdomains_again \<longrightarrow>
      save_to_file (fst (filter_subdomains subdomains out_of_scope)) =
      save_to_file (fst (filter_subdomains subdomains_again out_of_scope))) \<and>
   (load_file url_first_pass url_fallback_lines = Inr loaded_urls \<and> set urls = loaded_urls \<and>
    filter_urls hostname urls url_out_of_scope = Inr (in_scope, info) \<longrightarrow>
      (\<exists>out. save_to_file in_scope = concat (map (\<lambda>item. item @ [CHR 0x0A]) out) \<and>
             sorted out \<and> distinct out \<and> set out = in_scope \<and> set out \<subseteq> loaded_urls)) \<and>
   (set urls = set urls_again \<and>
    filter_urls hostname urls url_out_of_scope = Inr (in_scope, info) \<and>
    filter_urls hostname urls_again url_out_of_scope = Inr (in_scope_again, info_again) \<longrightarrow>
      save_to_file in_scope = save_to_file in_scope_again)"
proof -
  have a: "finite items \<longrightarrow>
      (\<exists>out. save_to_file items = concat (map (\<lambda>item. item @ [CHR 0x0A]) out) \<and>
             sorted out \<and> distinct out \<and> set out = items)"
    using save_to_file_eq by blast
  have b: "load_file FileNotFound latin1_lines = Inl (SystemExit 1)"
    by (simp add: load_file_def)
  have c: "load_file (Decoded file_lines) latin1_lines =
             load_file (Decoded file_lines_again) latin1_lines_again"
    if "set file_lines = set file_lines_again"
    using that by (simp add: load_file_Decoded)
  have d: "load_file (DecodeFailed read_lines) latin1_lines =
             load_file (DecodeFailed read_lines_again) latin1_lines_again"
    if "set read_lines = set read_lines_again" and "set latin1_lines = set latin1_lines_again"
    using that by (simp add: load_file_DecodeFailed)
  have e: "\<exists>out. save_to_file (fst (filter_subdomains subdomains out_of_scope)) =
               concat (map (\<lambda>item. item @ [CHR 0x0A]) out) \<and>
             sorted out \<and> distinct out \<and>
             set out = fst (filter_subdomains subdomains out_of_scope) \<and> set out \<subseteq> loaded"
    if "set subdomains = loaded"
    using save_to_file_eq [OF filter_subdomains_finite [of subdomains out_of_scope]]
      filter_subdomains_subset [of subdomains out_of_scope] that
    by auto
  have f: "save_to_file (fst (filter_subdomains subdomains out_of_scope)) =
           save_to_file (fst (filter_subdomains subdomains_again out_of_scope))"
    if "set subdomains = set subdomains_again"
    using that by (simp add: filter_subdomains_in_scope)
  have g: "\<exists>out. save_to_file in_scope = concat (map (\<lambda>item. item @ [CHR 0x0A]) out) \<and>
             sorted out \<and> distinct out \<and> set out = in_scope \<and> set out \<subseteq> loaded_urls"
    if "set urls = loaded_urls"
      and "filter_urls hostname urls url_out_of_scope = Inr (in_scope, info)"
    using save_to_file_eq [OF filter_urls_finite [OF that(2)]] filter_urls_subset [OF that(2)] that(1)
    by auto
  have h: "save_to_file in_scope = save_to_file in_scope_again"
    if "set urls = set urls_again"
      and "filter_urls hostname urls url_out_of_scope = Inr (in_scope, info)"
      and "filter_urls hostname urls_again url_out_of_scope = Inr (in_scope_again, info_again)"
    using filter_urls_in_scope [OF that(2)] filter_urls_in_scope [OF that(3)] that(1)
    by simp
  show ?thesis
    using a b c d e f g h load_file_Decoded [of file_lines latin1_lines]
      load_file_DecodeFailed [of read_lines latin1_lines]
    by blast
qed

theorem saved_output_sorted_dedup_witness:
  "finite {''b.com'', ''a.com'', ''a.co''} \<and>
   load_file (Decoded [''b.com'', '' a.com  '', ''b.com'', ''   '', ''a.co'']) [] =
     Inr {''a.co'', ''a.com'', ''b.com''} \<and>
   load_file (Decoded ['' a.com  '', ''a.co'', ''   '', ''b.com'']) [] =
     Inr {''a.co'', ''a.com'', ''b.com''} \<and>
   load_file (DecodeFailed [''b.com'']) [''b.com'', ''a.com''] = Inr {''a.com'', ''b.com''} \<and>
   load_file (DecodeFailed [''b.com'', ''b.com'']) [''a.com'', ''b.com''] =
     Inr {''a.com'', ''b.com''} \<and>
   set [''b.com'', ''a.com'', ''a.co''] = {''a.co'', ''a.com'', ''b.com''} \<and>
   fst (filter_subdomains [''b.com'', ''a.com'', ''a.co''] [''a.com'']) = {''a.co'', ''b.com''} \<and>
   fst (filter_subdomains [''a.co'', ''a.com'', ''b.com''] [''a.com'']) = {''a.co'', ''b.com''} \<and>
   save_to_file {''a.co'', ''b.com''} = ''a.co'' @ [CHR 0x0A] @ ''b.com'' @ [CHR 0x0A] \<and>
   load_file (Decoded [''http://b.com/'', ''http://a.com/'', ''http://b.com/'']) [] =
     Inr {''http://a.com/'', ''http://b.com/''} \<and>
   filter_urls library_hostname [''http://b.com/'', ''http://a.com/''] [''*.org''] =
     Inr ({''http://a.com/'', ''http://b.com/''}, Map.empty) \<and>
   filter_urls library_hostname [''http://a.com/'', ''http://b.com/''] [''*.org''] =
     Inr ({''http://a.com/'', ''http://b.com/''}, Map.empty) \<and>
   save_to_file {''http://a.com/'', ''http://b.com/''} =
     ''http://a.com/'' @ [CHR 0x0A] @ ''http://b.com/'' @ [CHR 0x0A]"
proof -
  have h1: "finite {''b.com'', ''a.com'', ''a.co''}"
    by simp
  have l1: "load_file (Decoded [''b.com'', '' a.com  '', ''b.com'', ''   '', ''a.co'']) [] =
     Inr {''a.co'', ''a.com'', ''b.com''}"
    by (auto simp: load_file_def strip_def is_space_def Let_def)
  have l1': "load_file (Decoded ['' a.com  '', ''a.co'', ''   '', ''b.com'']) [] =
     Inr {''a.co'', ''a.com'', ''b.com''}"
    by (auto simp: load_file_def strip_def is_space_def Let_def)
  have e1: "set [''b.com'', '' a.com  '', ''b.com'', ''   '', ''a.co''] =
            set ['' a.com  '', ''a.co'', ''   '', ''b.com'']"
    by auto
  have l2: "load_file (DecodeFailed [''b.com'']) [''b.com'', ''a.com''] = Inr {''a.com'', ''b.com''}"
    by (auto simp: load_file_def strip_def is_space_def Let_def)
  have l2': "load_file (DecodeFailed [''b.com'', ''b.com'']) [''a.com'', ''b.com''] =
     Inr {''a.com'', ''b.com''}"
    by (auto simp: load_file_def strip_def is_space_def Let_def)
  have e2: "set [''b.com''] = set [''b.com'', ''b.com''] \<and>
            set [''b.com'', ''a.com''] = set [''a.com'', ''b.com'']"
    by auto
  have s1: "set [''b.com'', ''a.com'', ''a.co''] = {''a.co'', ''a.com'', ''b.com''}"
    by auto
  have s1': "set [''b.com'', ''a.com'', ''a.co''] = set [''a.co'', ''a.com'', ''b.com'']"
    by auto
  have k1: "fst (filter_subdomains [''b.com'', ''a.com'', ''a.co''] [''a.com'']) = {''a.co'', ''b.com''}"
    by (auto simp: filter_subdomains_def eval_defs)
  have k1': "fst (filter_subdomains [''a.co'', ''a.com'', ''b.com''] [''a.com'']) = {''a.co'', ''b.com''}"
    by (auto simp: filter_subdomains_def eval_defs)
  have w1: "save_to_file {''a.co'', ''b.com''} = ''a.co'' @ [CHR 0x0A] @ ''b.com'' @ [CHR 0x0A]"
    by code_simp
  have l3: "load_file (Decoded [''http://b.com/'', ''http://a.com/'', ''http://b.com/'']) [] =
     Inr {''http://a.com/'', ''http://b.com/''}"
    by (auto simp: load_file_def strip_def is_space_def Let_def)
  have s2: "set [''http://b.com/'', ''http://a.com/''] = {''http://a.com/'', ''http://b.com/''}"
    by auto
  have s2': "set [''http://b.com/'', ''http://a.com/''] = set [''http://a.com/'', ''http://b.com/'']"
    by auto
  have u1: "filter_urls library_hostname [''http://b.com/'', ''http://a.com/''] [''*.org''] =
     Inr ({''http://a.com/'', ''http://b.com/''}, Map.empty)"
    by (simp add: eval_defs insert_commute)
  have u1': "filter_urls library_hostname [''http://a.com/'', ''http://b.com/''] [''*.org''] =
     Inr ({''http://a.com/'', ''http://b.com/''}, Map.empty)"
    by (simp add: eval_defs insert_commute)
  have w2: "save_to_file {''http://a.com/'', ''http://b.com/''} =
     ''http://a.com/'' @ [CHR 0x0A] @ ''http://b.com/'' @ [CHR 0x0A]"
    by code_simp
  note thm1 = saved_output_sorted_dedup
      [where items = "{''b.com'', ''a.com'', ''a.co''}"
         and file_lines = "[''b.com'', '' a.com  '', ''b.com'', ''   '', ''a.co'']"
         and file_lines_again = "['' a.com  '', ''a.co'', ''   '', ''b.com'']"
         and read_lines = "[''b.com'']" and read_lines_again = "[''b.com'', ''b.com'']"
         and latin1_lines = "[''b.com'', ''a.com'']"
         and latin1_lines_again = "[''a.com'', ''b.com'']"
         and first_pass = "Decoded [''b.com'', '' a.com  '', ''b.com'', ''   '', ''a.co'']"
         and fallback_lines = "[]"
         and loaded = "{''a.co'', ''a.com'', ''b.com''}"
         and subdomains = "[''b.com'', ''a.com'', ''a.co'']"
         and subdomains_again = "[''a.co'', ''a.com'', ''b.com'']"
         and out_of_scope = "[''a.com'']"
         and url_first_pass = "Decoded [''http://b.com/'', ''http://a.com/'', ''http://b.com/'']"
         and url_fallback_lines = "[]"
         and loaded_urls = "{''http://a.com/'', ''http://b.com/''}"
         and urls = "[''http://b.com/'', ''http://a.com/'']"
         and urls_again = "[''http://a.com/'', ''http://b.com/'']"
         and hostname = library_hostname
         and url_out_of_scope = "[''*.org'']"
         and in_scope = "{''http://a.com/'', ''http://b.com/''}"
         and in_scope_again = "{''http://a.com/'', ''http://b.com/''}"
         and info = Map.empty and info_again = Map.empty]
  show ?thesis
    using thm1 h1 l1 l1' e1 l2 l2' e2 s1 s1' k1 k1' w1 l3 s2 s2' u1 u1' w2
    by blast
qed

end
